theory Spec2Isabelle
  imports Main "HOL-Library.Multiset"
begin

section \<open>Data model of auth.go\<close>

text \<open>
  The per-socket authentication layer of the driver (auth.go): \<open>Login\<close>, \<open>Logout\<close>,
  \<open>LogoutAll\<close>, \<open>flushLogout\<close>, the mechanism drivers and the request/reply helper
  \<open>loginRun\<close>. The model is sequential: one caller at a time, so \<open>socket.Lock()\<close> and
  \<open>socket.Unlock()\<close> (and the \<open>lock\<close> closure of \<open>loginSASL\<close>) have no effect on it and are
  left out, and \<open>loginRun\<close>'s mutex, which only makes the caller wait for the reply
  callback, becomes a plain call. \<open>debugf\<close> writes a log line and is left out too.
\<close>

type_synonym bytes = string

text \<open>
  Modelled from the spec: the type \<open>Credential\<close> is declared outside auth.go. The spec's
  data model gives its fields (principal name, secret, source namespace, mechanism
  identifier, service name, service host), a value type compared field by field; the
  field names are the ones auth.go reads.
\<close>

record Credential =
  Username :: string
  Password :: string
  Source :: string
  Service :: string
  ServiceHost :: string
  Mechanism :: string

text \<open>The command structs. Struct fields in declaration order.\<close>

datatype command =
    AuthX509Cmd int string string
      \<comment> \<open>\<open>authX509Cmd{Authenticate, User, Mechanism}\<close>\<close>
  | SaslCmd int int int string bytes
      \<comment> \<open>\<open>saslCmd{Start, Continue, ConversationId, Mechanism, Payload}\<close>\<close>
  | LogoutCmd int
      \<comment> \<open>\<open>logoutCmd{Logout}\<close>\<close>

text \<open>\<open>queryOp\<close>, with the fields auth.go sets (the reply callback is \<open>loginRun\<close> below).\<close>

record queryOp =
  query :: command
  collection :: string
  limit :: int

record authResult =
  ErrMsg :: string
  Ok :: bool

record saslResult =
  sasl_Ok :: bool
  sasl_NotOk :: bool
  sasl_Done :: bool
  sasl_ConversationId :: int
  sasl_Payload :: bytes
  sasl_ErrMsg :: string

text \<open>
  The reply document as the spec's external interface lists it:
  \<open>{ok, code, done, conversationId, Payload, errmsg}\<close>.
\<close>

record reply =
  r_ok :: bool
  r_code :: int
  r_done :: bool
  r_conversationId :: int
  r_payload :: bytes
  r_errmsg :: string

text \<open>
  Modelled from the spec: \<open>bson.Unmarshal\<close> is outside auth.go. It fills the result
  struct from the reply document by the struct tags; the \<open>code\<close> field lands in the
  boolean \<open>NotOk\<close>, and the spec reads it as "nonzero = error despite ok=true".
\<close>

definition unmarshal_authResult :: "reply \<Rightarrow> authResult" where
  "unmarshal_authResult r = \<lparr>ErrMsg = r_errmsg r, Ok = r_ok r\<rparr>"

definition unmarshal_saslResult :: "reply \<Rightarrow> saslResult" where
  "unmarshal_saslResult r =
     \<lparr>sasl_Ok = r_ok r, sasl_NotOk = (r_code r \<noteq> 0), sasl_Done = r_done r,
      sasl_ConversationId = r_conversationId r, sasl_Payload = r_payload r,
      sasl_ErrMsg = r_errmsg r\<rparr>"

text \<open>
  Go's \<open>error\<close> values. Three are built in auth.go; the others come from a collaborator
  and are handed on unchanged, tagged here by where they came from.
\<close>

datatype error =
    Unsupported string
      \<comment> \<open>line 118: "authentication mechanism %q is no longer supported"\<close>
  | AuthFailed string
      \<comment> \<open>\<open>errors.New(res.ErrMsg)\<close> in \<open>loginX509\<close> and \<open>loginPlain\<close>\<close>
  | SaslFailed string
      \<comment> \<open>line 237: "server returned error on SASL authentication step: %s"\<close>
  | Transport string
      \<comment> \<open>from \<open>socket.Query\<close> or handed to the reply callback\<close>
  | Decode string
      \<comment> \<open>from \<open>bson.Unmarshal\<close>\<close>
  | Stepper string
      \<comment> \<open>from \<open>saslStepper.Step\<close> or \<open>saslNew\<close>\<close>

text \<open>What one \<open>socket.Query\<close> call leads to, as \<open>loginRun\<close> tells the cases apart.\<close>

datatype outcome =
    QueryError string
      \<comment> \<open>\<open>socket.Query\<close> returns an error\<close>
  | ReplyError string
      \<comment> \<open>the reply callback is called with an error\<close>
  | Undecodable string
      \<comment> \<open>\<open>bson.Unmarshal\<close> fails on the document\<close>
  | Document reply

text \<open>
  Everything auth.go calls and does not define, as parameters: the remote peer behind
  \<open>socket.Query\<close> (a transition function on a peer state), the SCRAM client of the
  internal package (\<open>scram.NewClient\<close>, \<open>Step\<close>, \<open>Out\<close>, \<open>Err\<close>), the digest and hex
  encoding of \<open>saslNewScram\<close>, and the external stepper provider \<open>sasl.New\<close> with the
  \<open>Step\<close> of what it returns.
\<close>

record ('c, 'x, 'p) env =
  respond :: "'p \<Rightarrow> queryOp \<Rightarrow> outcome \<times> 'p"
  md5_hex :: "string \<Rightarrow> string"
  scram_NewClient :: "string \<Rightarrow> string \<Rightarrow> 'c"
  scram_Step :: "'c \<Rightarrow> bytes \<Rightarrow> bool \<times> 'c"
  scram_Out :: "'c \<Rightarrow> bytes"
  scram_Err :: "'c \<Rightarrow> string option"
  sasl_New :: "string \<Rightarrow> string \<Rightarrow> string \<Rightarrow> string \<Rightarrow> string \<Rightarrow> string + 'x"
  ext_Step :: "'x \<Rightarrow> bytes \<Rightarrow> (bytes \<times> bool \<times> string option) \<times> 'x"

text \<open>
  The socket: the two credential lists, the server address read by \<open>loginSASL\<close>, the
  peer's state, and the operations handed to \<open>socket.Query\<close> so far.
\<close>

record 'p mongoSocket =
  creds :: "Credential list"
  logout :: "Credential list"
  serverAddr :: string
  peer :: 'p
  queries :: "queryOp list"

section \<open>The credential lists\<close>

text \<open>
  \<open>dropAuth\<close>: the first credential whose source is \<open>db\<close> is cut out of \<open>socket.creds\<close>
  (the \<open>copy\<close> and reslice) and returned with \<open>true\<close>; with none, the zero credential
  and \<open>false\<close>.
\<close>

fun cutSource :: "string \<Rightarrow> Credential list \<Rightarrow> (Credential \<times> Credential list) option" where
  "cutSource db [] = None"
| "cutSource db (sockCred # rest) =
     (if Source sockCred = db then Some (sockCred, rest)
      else (case cutSource db rest of
              None \<Rightarrow> None
            | Some (c, rest') \<Rightarrow> Some (c, sockCred # rest')))"

definition zeroCredential :: Credential where
  "zeroCredential =
     \<lparr>Username = [], Password = [], Source = [], Service = [], ServiceHost = [],
      Mechanism = []\<rparr>"

definition dropAuth :: "string \<Rightarrow> 'p mongoSocket \<Rightarrow> (Credential \<times> bool) \<times> 'p mongoSocket" where
  "dropAuth db socket =
     (case cutSource db (creds socket) of
        Some (sockCred, rest) \<Rightarrow> ((sockCred, True), socket\<lparr>creds := rest\<rparr>)
      | None \<Rightarrow> ((zeroCredential, False), socket))"

text \<open>\<open>dropLogout\<close>: the same on \<open>socket.logout\<close>, by equality of the whole credential.\<close>

fun cutEqual :: "Credential \<Rightarrow> Credential list \<Rightarrow> Credential list option" where
  "cutEqual cred [] = None"
| "cutEqual cred (sockCred # rest) =
     (if sockCred = cred then Some rest
      else (case cutEqual cred rest of
              None \<Rightarrow> None
            | Some rest' \<Rightarrow> Some (sockCred # rest')))"

definition dropLogout :: "Credential \<Rightarrow> 'p mongoSocket \<Rightarrow> bool \<times> 'p mongoSocket" where
  "dropLogout cred socket =
     (case cutEqual cred (logout socket) of
        Some rest \<Rightarrow> (True, socket\<lparr>logout := rest\<rparr>)
      | None \<Rightarrow> (False, socket))"

definition Logout :: "string \<Rightarrow> 'p mongoSocket \<Rightarrow> 'p mongoSocket" where
  "Logout db socket =
     (case dropAuth db socket of
        ((cred, found), socket') \<Rightarrow>
          if found then socket'\<lparr>logout := logout socket' @ [cred]\<rparr> else socket')"

definition LogoutAll :: "'p mongoSocket \<Rightarrow> 'p mongoSocket" where
  "LogoutAll socket =
     (if length (creds socket) > 0
      then socket\<lparr>logout := logout socket @ creds socket, creds := []\<rparr>
      else socket)"

text \<open>\<open>flushLogout\<close>: the loop over \<open>socket.logout[i]\<close>, one operation per entry.\<close>

definition logoutOp :: "Credential \<Rightarrow> queryOp" where
  "logoutOp cred = \<lparr>query = LogoutCmd 1, collection = Source cred @ ''.$cmd'', limit = - 1\<rparr>"

primrec logoutOps :: "Credential list \<Rightarrow> queryOp list \<Rightarrow> queryOp list" where
  "logoutOps [] ops = ops"
| "logoutOps (cred # rest) ops = logoutOps rest (ops @ [logoutOp cred])"

definition flushLogout :: "'p mongoSocket \<Rightarrow> queryOp list \<times> 'p mongoSocket" where
  "flushLogout socket =
     (if length (logout socket) > 0
      then (logoutOps (logout socket) [], socket\<lparr>logout := []\<rparr>)
      else ([], socket))"

section \<open>Request and reply\<close>

text \<open>
  Modelled from the spec: \<open>socket.Query\<close> is outside auth.go. The spec's connection
  abstraction sends the one command and has the reply callback called exactly once,
  with the reply or with an error; the two credential lists belong to the operations
  of auth.go alone, and the pending queue is drained only by \<open>flushLogout\<close>, which the
  connection layer calls on its own. So a \<open>socket.Query\<close> here records the operation,
  lets the peer answer, and leaves \<open>creds\<close> and \<open>logout\<close> alone.

  \<open>loginRun\<close>: one \<open>socket.Query\<close>, then the reply callback. \<open>unmarshal\<close> stands for
  \<open>bson.Unmarshal\<close> into the result struct the caller passed, \<open>f\<close> for the caller's
  closure, which reads that struct and may change the socket. The result struct is
  handed back when \<open>f\<close> returned nil, the only case in which a caller reads it.
\<close>

definition loginRun ::
  "('c, 'x, 'p) env \<Rightarrow> string \<Rightarrow> command \<Rightarrow> (reply \<Rightarrow> 'r) \<Rightarrow>
   ('r \<Rightarrow> 'p mongoSocket \<Rightarrow> error option \<times> 'p mongoSocket) \<Rightarrow>
   'p mongoSocket \<Rightarrow> (error + 'r) \<times> 'p mongoSocket" where
  "loginRun e db qry unmarshal f socket =
     (let op = \<lparr>query = qry, collection = db @ ''.$cmd'', limit = - 1\<rparr>;
          (out, peer') = respond e (peer socket) op;
          socket' = socket\<lparr>peer := peer', queries := queries socket @ [op]\<rparr>
      in case out of
           QueryError msg \<Rightarrow> (Inl (Transport msg), socket')
         | ReplyError msg \<Rightarrow> (Inl (Transport msg), socket')
         | Undecodable msg \<Rightarrow> (Inl (Decode msg), socket')
         | Document doc \<Rightarrow>
             (let res = unmarshal doc in
              case f res socket' of
                (Some err, socket'') \<Rightarrow> (Inl err, socket'')
              | (None, socket'') \<Rightarrow> (Inr res, socket'')))"

section \<open>Mechanism drivers\<close>

text \<open>The commit both single-round drivers and the SASL loop share: \<open>dropAuth\<close>, then append.\<close>

definition commit :: "Credential \<Rightarrow> 'p mongoSocket \<Rightarrow> 'p mongoSocket" where
  "commit cred socket =
     (case dropAuth (Source cred) socket of
        (_, socket') \<Rightarrow> socket'\<lparr>creds := creds socket' @ [cred]\<rparr>)"

definition authClosure ::
  "Credential \<Rightarrow> authResult \<Rightarrow> 'p mongoSocket \<Rightarrow> error option \<times> 'p mongoSocket" where
  "authClosure cred res socket =
     (if \<not> Ok res then (Some (AuthFailed (ErrMsg res)), socket)
      else (None, commit cred socket))"

definition loginClassic :: "Credential \<Rightarrow> 'p mongoSocket \<Rightarrow> error option \<times> 'p mongoSocket" where
  "loginClassic cred socket = (Some (Unsupported ''MONGODB-CR''), socket)"

definition loginX509 ::
  "('c, 'x, 'p) env \<Rightarrow> Credential \<Rightarrow> 'p mongoSocket \<Rightarrow> error option \<times> 'p mongoSocket" where
  "loginX509 e cred socket =
     (let cmd = AuthX509Cmd 1 (Username cred) ''MONGODB-X509'' in
      case loginRun e (Source cred) cmd unmarshal_authResult (authClosure cred) socket of
        (Inl err, socket') \<Rightarrow> (Some err, socket')
      | (Inr _, socket') \<Rightarrow> (None, socket'))"

definition loginPlain ::
  "('c, 'x, 'p) env \<Rightarrow> Credential \<Rightarrow> 'p mongoSocket \<Rightarrow> error option \<times> 'p mongoSocket" where
  "loginPlain e cred socket =
     (let cmd = SaslCmd 1 0 0 ''PLAIN''
                  ([CHR 0x00] @ Username cred @ [CHR 0x00] @ Password cred) in
      case loginRun e (Source cred) cmd unmarshal_authResult (authClosure cred) socket of
        (Inl err, socket') \<Rightarrow> (Some err, socket')
      | (Inr _, socket') \<Rightarrow> (None, socket'))"

section \<open>The SASL conversation\<close>

text \<open>
  The \<open>saslStepper\<close> interface has two implementations: \<open>saslScram\<close>, defined in auth.go
  over the SCRAM client, and whatever \<open>saslNew\<close> returns. \<open>Close\<close> does nothing on
  \<open>saslScram\<close> and releases the provider's own resources otherwise; it touches neither
  the socket nor the wire.
\<close>

datatype ('c, 'x) saslStepper = SaslScram Credential 'c | SaslExternal 'x

definition saslNewScram :: "('c, 'x, 'p) env \<Rightarrow> Credential \<Rightarrow> ('c, 'x) saslStepper" where
  "saslNewScram e cred =
     SaslScram cred
       (scram_NewClient e (Username cred)
          (md5_hex e (Username cred @ '':mongo:'' @ Password cred)))"

fun Step ::
  "('c, 'x, 'p) env \<Rightarrow> ('c, 'x) saslStepper \<Rightarrow> bytes \<Rightarrow>
   (bytes \<times> bool \<times> error option) \<times> ('c, 'x) saslStepper" where
  "Step e (SaslScram cred client) serverData =
     (case scram_Step e client serverData of
        (moreData, client') \<Rightarrow>
          ((scram_Out e client', \<not> moreData, map_option Stepper (scram_Err e client')),
           SaslScram cred client'))"
| "Step e (SaslExternal x) serverData =
     (case ext_Step e x serverData of
        ((clientData, done, err), x') \<Rightarrow>
          ((clientData, done, map_option Stepper err), SaslExternal x'))"

text \<open>\<open>saslNew\<close>, of the build with the external provider: it hands on to \<open>sasl.New\<close>.\<close>

definition saslNew :: "('c, 'x, 'p) env \<Rightarrow> Credential \<Rightarrow> string \<Rightarrow> string + 'x" where
  "saslNew e cred host =
     sasl_New e (Username cred) (Password cred) (Mechanism cred) (Service cred) host"

definition saslClosure :: "saslResult \<Rightarrow> 'p mongoSocket \<Rightarrow> error option \<times> 'p mongoSocket" where
  "saslClosure res socket =
     (if \<not> sasl_Ok res \<or> sasl_NotOk res then (Some (SaslFailed (sasl_ErrMsg res)), socket)
      else (None, socket))"

text \<open>The variables the \<open>for\<close> loop of \<open>loginSASL\<close> carries from one round to the next.\<close>

record ('c, 'x, 'p) saslVars =
  v_sasl :: "('c, 'x) saslStepper"
  v_cred :: Credential
  v_start :: int
  v_res :: saslResult
  v_socket :: "'p mongoSocket"

text \<open>
  One pass through the loop body: \<open>Inl\<close> is a \<open>return\<close> or the \<open>break\<close> followed by
  \<open>return nil\<close>, \<open>Inr\<close> the variables for the next pass.
\<close>

definition saslRound ::
  "('c, 'x, 'p) env \<Rightarrow> ('c, 'x, 'p) saslVars \<Rightarrow>
   (error option \<times> 'p mongoSocket) + ('c, 'x, 'p) saslVars" where
  "saslRound e v =
     (case Step e (v_sasl v) (sasl_Payload (v_res v)) of
        ((payload, done, Some err), sasl') \<Rightarrow> Inl (Some err, v_socket v)
      | ((payload, done, None), sasl') \<Rightarrow>
          if done \<and> sasl_Done (v_res v) then Inl (None, commit (v_cred v) (v_socket v))
          else
            (let cmd = SaslCmd (v_start v) (1 - v_start v) (sasl_ConversationId (v_res v))
                         (Mechanism (v_cred v)) payload;
                 cred' = (v_cred v)\<lparr>Mechanism := []\<rparr>
             in case loginRun e (Source cred') cmd unmarshal_saslResult saslClosure
                       (v_socket v) of
                  (Inl err, socket') \<Rightarrow> Inl (Some err, socket')
                | (Inr res', socket') \<Rightarrow>
                    if done \<and> sasl_Done res' then Inl (None, commit cred' socket')
                    else Inr \<lparr>v_sasl = sasl', v_cred = cred', v_start = 0, v_res = res',
                              v_socket = socket'\<rparr>))"

text \<open>The loop has no counter: it runs until a pass returns. \<open>None\<close> is running forever.\<close>

partial_function (option) saslLoop ::
  "('c, 'x, 'p) env \<Rightarrow> ('c, 'x, 'p) saslVars \<Rightarrow> (error option \<times> 'p mongoSocket) option" where
  "saslLoop e v =
     (case saslRound e v of
        Inl result \<Rightarrow> Some result
      | Inr v' \<Rightarrow> saslLoop e v')"

definition zeroSaslResult :: saslResult where
  "zeroSaslResult =
     \<lparr>sasl_Ok = False, sasl_NotOk = False, sasl_Done = False, sasl_ConversationId = 0,
      sasl_Payload = [], sasl_ErrMsg = []\<rparr>"

definition newStepper ::
  "('c, 'x, 'p) env \<Rightarrow> Credential \<Rightarrow> 'p mongoSocket \<Rightarrow> error + ('c, 'x) saslStepper" where
  "newStepper e cred socket =
     (if Mechanism cred = ''SCRAM-SHA-1'' then Inr (saslNewScram e cred)
      else
        (case (if length (ServiceHost cred) > 0 then saslNew e cred (ServiceHost cred)
               else saslNew e cred (serverAddr socket)) of
           Inl msg \<Rightarrow> Inl (Stepper msg)
         | Inr x \<Rightarrow> Inr (SaslExternal x)))"

definition loginSASL ::
  "('c, 'x, 'p) env \<Rightarrow> Credential \<Rightarrow> 'p mongoSocket \<Rightarrow>
   (error option \<times> 'p mongoSocket) option" where
  "loginSASL e cred socket =
     (case newStepper e cred socket of
        Inl err \<Rightarrow> Some (Some err, socket)
      | Inr sasl \<Rightarrow>
          saslLoop e \<lparr>v_sasl = sasl, v_cred = cred, v_start = 1, v_res = zeroSaslResult,
                      v_socket = socket\<rparr>)"

section \<open>Login\<close>

definition defaultMechanism :: "Credential \<Rightarrow> Credential" where
  "defaultMechanism cred =
     (if Mechanism cred = [] then cred\<lparr>Mechanism := ''SCRAM-SHA-1''\<rparr> else cred)"

definition Login ::
  "('c, 'x, 'p) env \<Rightarrow> Credential \<Rightarrow> 'p mongoSocket \<Rightarrow>
   (error option \<times> 'p mongoSocket) option" where
  "Login e cred0 socket =
     (let cred = defaultMechanism cred0 in
      if cred \<in> set (creds socket) then Some (None, socket)
      else
        (case dropLogout cred socket of
           (True, socket') \<Rightarrow> Some (None, socket'\<lparr>creds := creds socket' @ [cred]\<rparr>)
         | (False, socket') \<Rightarrow>
             if Mechanism cred = ''MONGODB-CR'' \<or> Mechanism cred = ''MONGO-CR''
             then Some (Some (Unsupported (Mechanism cred)), socket')
             else if Mechanism cred = ''PLAIN'' then Some (loginPlain e cred socket')
             else if Mechanism cred = ''MONGODB-X509'' then Some (loginX509 e cred socket')
             else loginSASL e cred socket'))"

section \<open>Sequences of operations\<close>

text \<open>
  What the connection layer can call on a socket, and a run of such calls from a given
  socket. A run is \<open>None\<close> when one of its logins never returns.
\<close>

datatype operation = OpLogin Credential | OpLogout string | OpLogoutAll | OpFlush

definition perform ::
  "('c, 'x, 'p) env \<Rightarrow> operation \<Rightarrow> 'p mongoSocket \<Rightarrow> 'p mongoSocket option" where
  "perform e op socket =
     (case op of
        OpLogin cred \<Rightarrow> map_option snd (Login e cred socket)
      | OpLogout db \<Rightarrow> Some (Logout db socket)
      | OpLogoutAll \<Rightarrow> Some (LogoutAll socket)
      | OpFlush \<Rightarrow> Some (snd (flushLogout socket)))"

fun run ::
  "('c, 'x, 'p) env \<Rightarrow> operation list \<Rightarrow> 'p mongoSocket \<Rightarrow> 'p mongoSocket option" where
  "run e [] socket = Some socket"
| "run e (op # ops) socket =
     (case perform e op socket of
        None \<Rightarrow> None
      | Some socket' \<Rightarrow> run e ops socket')"

text \<open>A socket as it is created: no credential, nothing pending, nothing sent.\<close>

definition newSocket :: "string \<Rightarrow> 'p \<Rightarrow> 'p mongoSocket" where
  "newSocket addr p = \<lparr>creds = [], logout = [], serverAddr = addr, peer = p, queries = []\<rparr>"

text \<open>
  The invariant of the two lists that the runs keep: a credential with a mechanism set
  is held at most once, counting both lists.
\<close>

definition heldOnce :: "'p mongoSocket \<Rightarrow> bool" where
  "heldOnce socket =
     (\<forall>c \<in> set (creds socket @ logout socket).
        Mechanism c \<noteq> [] \<longrightarrow> count (mset (creds socket @ logout socket)) c \<le> 1)"

section \<open>A concrete peer and stepper\<close>

text \<open>
  An environment to run the definitions on. The peer counts the operations it has
  seen and answers each with the same outcome; the SCRAM client has nothing left to
  say (every \<open>Step\<close> reports no more data, no output and no error); no external
  provider is built in, so \<open>sasl.New\<close> fails.
\<close>

definition answer :: "bool \<Rightarrow> int \<Rightarrow> bool \<Rightarrow> outcome" where
  "answer ok_flag code_val done_flag =
     Document \<lparr>r_ok = ok_flag, r_code = code_val, r_done = done_flag, r_conversationId = 1,
               r_payload = [], r_errmsg = ''Authentication failed.''\<rparr>"

definition fixedEnv :: "outcome \<Rightarrow> (nat, unit, nat) env" where
  "fixedEnv out =
     \<lparr>respond = (\<lambda>n op. (out, Suc n)),
      md5_hex = (\<lambda>s. s),
      scram_NewClient = (\<lambda>user pass. 0),
      scram_Step = (\<lambda>n serverData. (False, Suc n)),
      scram_Out = (\<lambda>n. []),
      scram_Err = (\<lambda>n. None),
      sasl_New = (\<lambda>user pass mech service host. Inl ''SASL support not enabled''),
      ext_Step = (\<lambda>x serverData. (([], True, None), x))\<rparr>"

definition credOf :: "string \<Rightarrow> string \<Rightarrow> string \<Rightarrow> Credential" where
  "credOf user db mech =
     \<lparr>Username = user, Password = ''secret'', Source = db, Service = [], ServiceHost = [],
      Mechanism = mech\<rparr>"

section \<open>Auxiliary notions for the proofs\<close>

text \<open>The active list after \<open>dropAuth db\<close>.\<close>

definition without :: "string \<Rightarrow> Credential list \<Rightarrow> Credential list" where
  "without db cs = (case cutSource db cs of None \<Rightarrow> cs | Some (c, rest) \<Rightarrow> rest)"

text \<open>
  What a result of the SASL loop keeps of the socket it started from: the pending queue
  always; the active list on an error; on success the active list is the old one
  without the first credential of that source, followed by the credential of the
  login, whose mechanism is cleared unless the loop committed before its first round
  trip.
\<close>

definition saslKept ::
  "('c, 'x, 'p) saslVars \<Rightarrow> error option \<times> 'p mongoSocket \<Rightarrow> bool" where
  "saslKept v result =
     (logout (snd result) = logout (v_socket v) \<and>
      (case fst result of
         Some err \<Rightarrow> creds (snd result) = creds (v_socket v)
       | None \<Rightarrow>
           creds (snd result) =
             without (Source (v_cred v)) (creds (v_socket v)) @ [(v_cred v)\<lparr>Mechanism := []\<rparr>] \<or>
           sasl_Done (v_res v) \<and>
           creds (snd result) = without (Source (v_cred v)) (creds (v_socket v)) @ [v_cred v]))"

text \<open>The uniqueness the spec asks of the active list: one credential per source.\<close>

definition uniqueSource :: "'p mongoSocket \<Rightarrow> bool" where
  "uniqueSource socket = distinct (map Source (creds socket))"



definition saslOp :: "('c, 'x, 'p) saslVars \<Rightarrow> bytes \<Rightarrow> queryOp" where
  "saslOp v payload =
     \<lparr>query = SaslCmd (v_start v) (1 - v_start v) (sasl_ConversationId (v_res v))
                (Mechanism (v_cred v)) payload,
      collection = Source (v_cred v) @ ''.$cmd'', limit = - 1\<rparr>"

definition sent :: "'p mongoSocket \<Rightarrow> 'p \<Rightarrow> queryOp \<Rightarrow> 'p mongoSocket" where
  "sent socket p' op = socket\<lparr>peer := p', queries := queries socket @ [op]\<rparr>"

text \<open>
  When a pass of the SASL loop returns, in words of the stepper's answer and the
  peer's: the stepper gives an error; or the stepper reports done and the reply of
  the pass before had \<open>done\<close> set; or the round trip fails (transport, decoding); or
  the reply is a failure (\<open>ok\<close> false or \<open>code\<close> nonzero); or the stepper reports done
  and this reply has \<open>done\<close> set. \<open>nextPass\<close> gives the variables of the following pass
  when none of these holds.
\<close>

definition passExits :: "('c, 'x, 'p) env \<Rightarrow> ('c, 'x, 'p) saslVars \<Rightarrow> bool" where
  "passExits e v =
     (case Step e (v_sasl v) (sasl_Payload (v_res v)) of
        ((payload, done, err), sasl') \<Rightarrow>
          err \<noteq> None \<or> (done \<and> sasl_Done (v_res v)) \<or>
          (case fst (respond e (peer (v_socket v)) (saslOp v payload)) of
             Document doc \<Rightarrow> r_ok doc = False \<or> r_code doc \<noteq> 0 \<or> (done \<and> r_done doc)
           | _ \<Rightarrow> True))"

definition nextPass ::
  "('c, 'x, 'p) env \<Rightarrow> ('c, 'x, 'p) saslVars \<Rightarrow> ('c, 'x, 'p) saslVars" where
  "nextPass e v =
     (case Step e (v_sasl v) (sasl_Payload (v_res v)) of
        ((payload, done, err), sasl') \<Rightarrow>
          (case respond e (peer (v_socket v)) (saslOp v payload) of
             (out, p') \<Rightarrow>
               \<lparr>v_sasl = sasl', v_cred = (v_cred v)\<lparr>Mechanism := []\<rparr>, v_start = 0,
                v_res = (case out of Document doc \<Rightarrow> unmarshal_saslResult doc
                                   | _ \<Rightarrow> v_res v),
                v_socket = sent (v_socket v) p' (saslOp v payload)\<rparr>))"



section \<open>Facts about the two lists\<close>

lemma cutEqual_eq:
  "cutEqual cred cs = (if cred \<in> set cs then Some (remove1 cred cs) else None)"
  by (induction cs) auto

lemma cutSource_None: "(cutSource db cs = None) = (db \<notin> Source ` set cs)"
  by (induction cs) (auto split: option.splits)

lemma cutSource_Some:
  "cutSource db cs = Some (c, rest) \<Longrightarrow> Source c = db \<and> mset cs = add_mset c (mset rest)"
  by (induction cs arbitrary: rest) (auto split: if_splits option.splits)

lemma cutSource_rest_sources:
  "cutSource db cs = Some (c, rest) \<Longrightarrow> db' \<noteq> db \<Longrightarrow> db' \<in> Source ` set cs \<Longrightarrow>
   db' \<in> Source ` set rest"
  by (induction cs arbitrary: rest) (auto split: if_splits option.splits)

lemma logoutOps_eq: "logoutOps cs ops = ops @ map logoutOp cs"
  by (induction cs arbitrary: ops) auto

lemma Logout_found:
  "cutSource db (creds socket) = Some (c, rest) \<Longrightarrow>
   Logout db socket = socket\<lparr>creds := rest, logout := logout socket @ [c]\<rparr>"
  by (simp add: Logout_def dropAuth_def)

lemma Logout_absent: "cutSource db (creds socket) = None \<Longrightarrow> Logout db socket = socket"
  by (simp add: Logout_def dropAuth_def)

text \<open>
  Logging out of distinct namespaces that are all active queues one credential per
  call, in call order.
\<close>

lemma Logouts_queue:
  "distinct dbs \<Longrightarrow> set dbs \<subseteq> Source ` set (creds socket) \<Longrightarrow>
   map Source (logout (fold Logout dbs socket)) = map Source (logout socket) @ dbs"
proof (induction dbs arbitrary: socket)
  case Nil
  then show ?case by simp
next
  case (Cons db dbs)
  from Cons.prems obtain c rest where cut: "cutSource db (creds socket) = Some (c, rest)"
    using cutSource_None [of db "creds socket"] by (cases "cutSource db (creds socket)") auto
  have src: "Source c = db" using cutSource_Some [OF cut] by simp
  have sub: "set dbs \<subseteq> Source ` set (creds (Logout db socket))"
  proof
    fix d assume d: "d \<in> set dbs"
    with Cons.prems have "d \<noteq> db" "d \<in> Source ` set (creds socket)" by auto
    then show "d \<in> Source ` set (creds (Logout db socket))"
      using cutSource_rest_sources [OF cut] by (simp add: Logout_found [OF cut])
  qed
  from Cons.prems have "distinct dbs" by simp
  from Cons.IH [OF this sub] show ?case
    by (simp add: Logout_found [OF cut] src)
qed

section \<open>Facts about one round trip\<close>

lemma commit_lists:
  "creds (commit cred socket) = without (Source cred) (creds socket) @ [cred]"
  "logout (commit cred socket) = logout socket"
  "queries (commit cred socket) = queries socket"
  by (simp_all add: commit_def dropAuth_def without_def split: option.splits)

lemma loginRun_sasl:
  assumes "loginRun e db cmd unmarshal_saslResult saslClosure socket = (r, socket')"
  shows "creds socket' = creds socket \<and> logout socket' = logout socket \<and>
         queries socket' = queries socket @ [\<lparr>query = cmd, collection = db @ ''.$cmd'', limit = - 1\<rparr>]"
  using assms
  by (auto simp add: loginRun_def saslClosure_def Let_def
           split: prod.splits outcome.splits option.splits if_splits)

lemma loginRun_auth:
  assumes "loginRun e db cmd unmarshal_authResult (authClosure cred) socket = (r, socket')"
  shows "logout socket' = logout socket \<and>
         queries socket' = queries socket @ [\<lparr>query = cmd, collection = db @ ''.$cmd'', limit = - 1\<rparr>] \<and>
         (case r of Inl err \<Rightarrow> creds socket' = creds socket
                  | Inr res \<Rightarrow> creds socket' = without (Source cred) (creds socket) @ [cred])"
  using assms
  by (auto simp add: loginRun_def authClosure_def Let_def commit_lists
           split: prod.splits outcome.splits option.splits if_splits)

lemma saslRound_continue:
  assumes "saslRound e v = Inr v'"
  shows "creds (v_socket v') = creds (v_socket v) \<and> logout (v_socket v') = logout (v_socket v) \<and>
         v_cred v' = (v_cred v)\<lparr>Mechanism := []\<rparr> \<and>
         length (queries (v_socket v')) = Suc (length (queries (v_socket v)))"
  using assms
  by (auto simp add: saslRound_def Let_def split: prod.splits option.splits if_splits sum.splits
           dest!: loginRun_sasl)

lemma saslRound_error:
  assumes "saslRound e v = Inl (Some err, socket')"
  shows "creds socket' = creds (v_socket v) \<and> logout socket' = logout (v_socket v) \<and>
         length (queries socket') \<le> Suc (length (queries (v_socket v)))"
  using assms
  by (auto simp add: saslRound_def Let_def split: prod.splits option.splits if_splits sum.splits
           dest!: loginRun_sasl)

lemma saslRound_success:
  assumes "saslRound e v = Inl (None, socket')"
  shows "logout socket' = logout (v_socket v) \<and>
         length (queries socket') \<le> Suc (length (queries (v_socket v))) \<and>
         (creds socket' = without (Source (v_cred v)) (creds (v_socket v)) @ [(v_cred v)\<lparr>Mechanism := []\<rparr>] \<or>
          sasl_Done (v_res v) \<and>
          creds socket' = without (Source (v_cred v)) (creds (v_socket v)) @ [v_cred v])"
  using assms
  by (auto simp add: saslRound_def Let_def commit_lists
           split: prod.splits option.splits if_splits sum.splits
           dest!: loginRun_sasl)

lemma loginRun_outcomes:
  assumes "respond e (peer socket) \<lparr>query = cmd, collection = db @ ''.$cmd'', limit = - 1\<rparr> =
             (out, p')"
  shows "fst (loginRun e db cmd unmarshal f socket) =
           (case out of
              QueryError msg \<Rightarrow> Inl (Transport msg)
            | ReplyError msg \<Rightarrow> Inl (Transport msg)
            | Undecodable msg \<Rightarrow> Inl (Decode msg)
            | Document doc \<Rightarrow>
                (case fst (f (unmarshal doc)
                          (socket\<lparr>peer := p', queries := queries socket @
                             [\<lparr>query = cmd, collection = db @ ''.$cmd'', limit = - 1\<rparr>]\<rparr>)) of
                   Some err \<Rightarrow> Inl err
                 | None \<Rightarrow> Inr (unmarshal doc)))"
  using assms
  by (simp add: loginRun_def Let_def split: outcome.splits prod.splits option.splits)

section \<open>Facts about the SASL loop\<close>

lemma saslLoop_lists_aux:
  assumes "saslLoop e v = Some result"
  shows "saslKept v result"
proof (rule saslLoop.raw_induct [where P = "\<lambda>e v result. saslKept v result", OF _ assms],
    goal_cases)
  case (1 loop e v result)
  show ?case
  proof (cases "saslRound e v")
    case (Inl res)
    with 1(2) have res: "saslRound e v = Inl (fst result, snd result)" by simp
    show ?thesis
    proof (cases "fst result")
      case None
      with res saslRound_success [of e v "snd result"] show ?thesis
        by (simp add: saslKept_def)
    next
      case (Some err)
      with res saslRound_error [of e v err "snd result"] show ?thesis
        by (simp add: saslKept_def)
    qed
  next
    case (Inr v')
    with 1(2) have "loop e v' = Some result" by simp
    from 1(1) [OF this] saslRound_continue [OF Inr] show ?thesis
      by (cases "fst result") (auto simp add: saslKept_def)
  qed
qed

lemma stall_round:
  assumes "v_sasl v = SaslScram c n" and "\<not> sasl_Done (v_res v)"
  shows "\<exists>v'. saslRound (fixedEnv (answer True 0 False)) v = Inr v' \<and>
              v_sasl v' = SaslScram c (Suc n) \<and> \<not> sasl_Done (v_res v')"
  using assms
  by (simp add: saslRound_def fixedEnv_def answer_def loginRun_def Let_def saslClosure_def
        unmarshal_saslResult_def)

lemma stall_loop:
  assumes "saslLoop e v = Some result"
  shows "\<not> (e = fixedEnv (answer True 0 False) \<and> (\<exists>c n. v_sasl v = SaslScram c n) \<and>
            \<not> sasl_Done (v_res v))"
proof (rule saslLoop.raw_induct
    [where P = "\<lambda>e v result. \<not> (e = fixedEnv (answer True 0 False) \<and>
        (\<exists>c n. v_sasl v = SaslScram c n) \<and> \<not> sasl_Done (v_res v))", OF _ assms], goal_cases)
  case (1 loop e v result)
  show ?case
  proof
    assume a: "e = fixedEnv (answer True 0 False) \<and> (\<exists>c n. v_sasl v = SaslScram c n) \<and>
            \<not> sasl_Done (v_res v)"
    then obtain v' where r: "saslRound e v = Inr v'"
      and inv: "\<exists>c n. v_sasl v' = SaslScram c n" "\<not> sasl_Done (v_res v')"
      using stall_round [of v] by blast
    from 1(2) r have "loop e v' = Some result" by simp
    from 1(1) [OF this] a inv show False by blast
  qed
qed

section \<open>What \<open>Login\<close> does to the two lists\<close>

lemma loginSASL_lists:
  assumes "loginSASL e cred socket = Some (r, socket')"
  shows "logout socket' = logout socket \<and>
         (case r of
            Some err \<Rightarrow> creds socket' = creds socket
          | None \<Rightarrow> creds socket' = without (Source cred) (creds socket) @ [cred\<lparr>Mechanism := []\<rparr>])"
proof (cases "newStepper e cred socket")
  case (Inl err)
  with assms show ?thesis by (auto simp add: loginSASL_def)
next
  case (Inr sasl)
  with assms have "saslLoop e \<lparr>v_sasl = sasl, v_cred = cred, v_start = 1, v_res = zeroSaslResult,
                      v_socket = socket\<rparr> = Some (r, socket')"
    by (simp add: loginSASL_def)
  from saslLoop_lists_aux [OF this] show ?thesis
    by (cases r) (simp_all add: saslKept_def zeroSaslResult_def)
qed

lemma loginPlain_lists:
  assumes "loginPlain e cred socket = (r, socket')"
  shows "logout socket' = logout socket \<and>
         (case r of
            Some err \<Rightarrow> creds socket' = creds socket
          | None \<Rightarrow> creds socket' = without (Source cred) (creds socket) @ [cred])"
  using assms
  by (auto simp add: loginPlain_def Let_def split: prod.splits sum.splits dest!: loginRun_auth)

lemma loginX509_lists:
  assumes "loginX509 e cred socket = (r, socket')"
  shows "logout socket' = logout socket \<and>
         (case r of
            Some err \<Rightarrow> creds socket' = creds socket
          | None \<Rightarrow> creds socket' = without (Source cred) (creds socket) @ [cred])"
  using assms
  by (auto simp add: loginX509_def Let_def split: prod.splits sum.splits dest!: loginRun_auth)

lemma Login_pending:
  assumes "defaultMechanism cred \<notin> set (creds socket)"
    and "defaultMechanism cred \<in> set (logout socket)"
  shows "Login e cred socket =
           Some (None, socket\<lparr>logout := remove1 (defaultMechanism cred) (logout socket),
                               creds := creds socket @ [defaultMechanism cred]\<rparr>)"
  using assms by (simp add: Login_def Let_def dropLogout_def cutEqual_eq)

lemma Login_driver:
  assumes "defaultMechanism cred \<notin> set (creds socket)"
    and "defaultMechanism cred \<notin> set (logout socket)"
    and "Login e cred socket = Some (r, socket')"
  shows "logout socket' = logout socket \<and>
         (case r of
            Some err \<Rightarrow> creds socket' = creds socket
          | None \<Rightarrow>
              creds socket' =
                without (Source cred) (creds socket) @ [defaultMechanism cred] \<or>
              creds socket' =
                without (Source cred) (creds socket) @ [(defaultMechanism cred)\<lparr>Mechanism := []\<rparr>])"
proof -
  let ?d = "defaultMechanism cred"
  have src: "Source ?d = Source cred" by (simp add: defaultMechanism_def)
  from assms have run: "(if Mechanism ?d = ''MONGODB-CR'' \<or> Mechanism ?d = ''MONGO-CR''
             then Some (Some (Unsupported (Mechanism ?d)), socket)
             else if Mechanism ?d = ''PLAIN'' then Some (loginPlain e ?d socket)
             else if Mechanism ?d = ''MONGODB-X509'' then Some (loginX509 e ?d socket)
             else loginSASL e ?d socket) = Some (r, socket')"
    by (simp add: Login_def Let_def dropLogout_def cutEqual_eq)
  consider (legacy) "Mechanism ?d = ''MONGODB-CR'' \<or> Mechanism ?d = ''MONGO-CR''"
    | (plain) "Mechanism ?d = ''PLAIN''"
    | (x509) "Mechanism ?d = ''MONGODB-X509''"
    | (sasl) "\<not> (Mechanism ?d = ''MONGODB-CR'' \<or> Mechanism ?d = ''MONGO-CR'')"
        "Mechanism ?d \<noteq> ''PLAIN''" "Mechanism ?d \<noteq> ''MONGODB-X509''"
    by blast
  then show ?thesis
  proof cases
    case legacy
    with run show ?thesis by auto
  next
    case plain
    with run have "loginPlain e ?d socket = (r, socket')" by simp
    from loginPlain_lists [OF this] src show ?thesis by (cases r) simp_all
  next
    case x509
    with run have "loginX509 e ?d socket = (r, socket')" by simp
    from loginX509_lists [OF this] src show ?thesis by (cases r) simp_all
  next
    case sasl
    with run have "loginSASL e ?d socket = Some (r, socket')" by simp
    from loginSASL_lists [OF this] src show ?thesis by (cases r) simp_all
  qed
qed

section \<open>An invariant of every run\<close>

lemma count_absent: "c \<notin> set xs \<Longrightarrow> count (mset xs) c = 0"
  by (induction xs) auto

lemma heldOnce_iff:
  "heldOnce socket =
     (\<forall>c::Credential. Mechanism c \<noteq> [] \<longrightarrow>
        count (mset (creds socket) + mset (logout socket)) c \<le> 1)"
proof
  assume h: "heldOnce socket"
  show "\<forall>c::Credential. Mechanism c \<noteq> [] \<longrightarrow>
          count (mset (creds socket) + mset (logout socket)) c \<le> 1"
  proof (intro allI impI)
    fix c :: Credential assume m: "Mechanism c \<noteq> []"
    show "count (mset (creds socket) + mset (logout socket)) c \<le> 1"
    proof (cases "c \<in> set (creds socket @ logout socket)")
      case True
      with h m show ?thesis by (simp add: heldOnce_def)
    next
      case False
      then show ?thesis by (simp add: count_absent)
    qed
  qed
next
  assume "\<forall>c::Credential. Mechanism c \<noteq> [] \<longrightarrow>
            count (mset (creds socket) + mset (logout socket)) c \<le> 1"
  then show "heldOnce socket" by (simp add: heldOnce_def)
qed

lemma heldOnce_less:
  assumes "heldOnce socket"
    and "\<And>c::Credential. Mechanism c \<noteq> [] \<Longrightarrow>
           count (mset (creds socket') + mset (logout socket')) c \<le>
           count (mset (creds socket) + mset (logout socket)) c"
  shows "heldOnce socket'"
  unfolding heldOnce_iff
proof (intro allI impI)
  fix c :: Credential assume m: "Mechanism c \<noteq> []"
  from assms(1) m have "count (mset (creds socket) + mset (logout socket)) c \<le> 1"
    by (simp add: heldOnce_iff)
  with assms(2) [OF m] show "count (mset (creds socket') + mset (logout socket')) c \<le> 1"
    by linarith
qed

lemma count_without: "count (mset (without db cs)) c \<le> count (mset cs) c"
proof (cases "cutSource db cs")
  case None
  then show ?thesis by (simp add: without_def)
next
  case (Some a)
  then obtain x rest where "cutSource db cs = Some (x, rest)" by (cases a) simp
  with cutSource_Some [OF this] show ?thesis by (simp add: without_def)
qed

lemma set_without: "c \<in> set (without db cs) \<Longrightarrow> c \<in> set cs"
  using count_without [of db cs c] count_absent [of c cs] by (cases "c \<in> set cs") auto

lemma heldOnce_Logout: "heldOnce socket \<Longrightarrow> heldOnce (Logout db socket)"
proof (cases "cutSource db (creds socket)")
  case None
  assume "heldOnce socket"
  with None show ?thesis by (simp add: Logout_absent)
next
  case (Some a)
  assume h: "heldOnce socket"
  from Some obtain x rest where cut: "cutSource db (creds socket) = Some (x, rest)"
    by (cases a) simp
  from cutSource_Some [OF cut] have "mset (creds socket) = add_mset x (mset rest)" by simp
  then show ?thesis
    by (intro heldOnce_less [OF h]) (simp add: Logout_found [OF cut])
qed

lemma heldOnce_LogoutAll: "heldOnce socket \<Longrightarrow> heldOnce (LogoutAll socket)"
  by (erule heldOnce_less) (simp add: LogoutAll_def)

lemma heldOnce_flushLogout: "heldOnce socket \<Longrightarrow> heldOnce (snd (flushLogout socket))"
  by (erule heldOnce_less) (simp add: flushLogout_def)

lemma defaultMechanism_set: "Mechanism (defaultMechanism cred) \<noteq> []"
  by (simp add: defaultMechanism_def)

lemma heldOnce_Login:
  assumes h: "heldOnce socket" and l: "Login e cred socket = Some (r, socket')"
  shows "heldOnce socket'"
proof -
  let ?d = "defaultMechanism cred"
  consider (active) "?d \<in> set (creds socket)"
    | (pending) "?d \<notin> set (creds socket)" "?d \<in> set (logout socket)"
    | (driver) "?d \<notin> set (creds socket)" "?d \<notin> set (logout socket)"
    by blast
  then show ?thesis
  proof cases
    case active
    with l h show ?thesis by (simp add: Login_def Let_def)
  next
    case pending
    with l have s': "socket' = socket\<lparr>logout := remove1 ?d (logout socket),
                               creds := creds socket @ [?d]\<rparr>"
      by (simp add: Login_pending)
    from pending(2) have "mset (logout socket) = add_mset ?d (mset (remove1 ?d (logout socket)))"
      by simp
    then have "mset (creds socket') + mset (logout socket') =
          mset (creds socket) + mset (logout socket)"
      by (simp add: s')
    then show ?thesis by (intro heldOnce_less [OF h]) simp
  next
    case driver
    note eff = Login_driver [OF driver l]
    have src: "Source ?d = Source cred" by (simp add: defaultMechanism_def)
    show ?thesis
    proof (cases r)
      case (Some err)
      with eff show ?thesis by (intro heldOnce_less [OF h]) simp
    next
      case None
      with eff consider
          (kept) "creds socket' = without (Source cred) (creds socket) @ [?d]"
        | (cleared) "creds socket' = without (Source cred) (creds socket) @ [?d\<lparr>Mechanism := []\<rparr>]"
        by auto
      then show ?thesis
      proof cases
        case kept
        show ?thesis unfolding heldOnce_iff
        proof (intro allI impI)
          fix c :: Credential assume m: "Mechanism c \<noteq> []"
          from h m have before: "count (mset (creds socket) + mset (logout socket)) c \<le> 1"
            by (simp add: heldOnce_iff)
          have w: "count (mset (without (Source cred) (creds socket))) c \<le> count (mset (creds socket)) c"
            by (rule count_without)
          show "count (mset (creds socket') + mset (logout socket')) c \<le> 1"
          proof (cases "c = ?d")
            case True
            with driver have "c \<notin> set (without (Source cred) (creds socket))"
              using set_without by blast
            with driver True eff show ?thesis by (simp add: kept count_absent)
          next
            case False
            with w before eff show ?thesis by (simp add: kept)
          qed
        qed
      next
        case cleared
        show ?thesis
        proof (intro heldOnce_less [OF h])
          fix c :: Credential assume m: "Mechanism c \<noteq> []"
          then have "c \<noteq> ?d\<lparr>Mechanism := []\<rparr>" by auto
          with count_without [of "Source cred" "creds socket" c] eff
          show "count (mset (creds socket') + mset (logout socket')) c \<le>
                count (mset (creds socket) + mset (logout socket)) c"
            by (simp add: cleared)
        qed
      qed
    qed
  qed
qed

lemma heldOnce_perform:
  "heldOnce socket \<Longrightarrow> perform e op socket = Some socket' \<Longrightarrow> heldOnce socket'"
  by (cases op)
     (auto simp add: perform_def heldOnce_Logout heldOnce_LogoutAll heldOnce_flushLogout
           dest: heldOnce_Login)

lemma heldOnce_run:
  "heldOnce socket \<Longrightarrow> run e ops socket = Some socket' \<Longrightarrow> heldOnce socket'"
proof (induction ops arbitrary: socket)
  case Nil
  then show ?case by simp
next
  case (Cons op ops)
  then show ?case
    by (cases "perform e op socket") (auto dest: heldOnce_perform)
qed

lemma heldOnce_newSocket: "heldOnce (newSocket addr p)"
  by (simp add: heldOnce_def newSocket_def)

lemma heldOnce_pending_not_active:
  assumes "heldOnce socket" and "defaultMechanism cred \<in> set (logout socket)"
  shows "defaultMechanism cred \<notin> set (creds socket)"
proof
  assume "defaultMechanism cred \<in> set (creds socket)"
  then have "1 \<le> count (mset (creds socket)) (defaultMechanism cred)" by simp
  moreover from assms(2) have "1 \<le> count (mset (logout socket)) (defaultMechanism cred)" by simp
  moreover from assms(1) defaultMechanism_set [of cred]
  have "count (mset (creds socket)) (defaultMechanism cred) +
        count (mset (logout socket)) (defaultMechanism cred) \<le> 1"
    by (simp add: heldOnce_iff)
  ultimately show False by linarith
qed

section \<open>Losing a credential, and one credential per source\<close>

lemma lost_from_without:
  assumes "count (mset (without db cs)) c < count (mset cs) c"
  shows "cutSource db cs = Some (c, without db cs)"
proof (cases "cutSource db cs")
  case None
  with assms show ?thesis by (simp add: without_def)
next
  case (Some a)
  then obtain x rest where cut: "cutSource db cs = Some (x, rest)" by (cases a) simp
  from cutSource_Some [OF cut] assms cut have "x = c"
    by (auto simp add: without_def split: if_splits)
  with cut show ?thesis by (simp add: without_def)
qed

lemma cutSource_distinct:
  "cutSource db cs = Some (c, rest) \<Longrightarrow> distinct (map Source cs) \<Longrightarrow>
   distinct (map Source rest) \<and> db \<notin> Source ` set rest"
proof (induction cs arbitrary: rest)
  case Nil
  then show ?case by simp
next
  case (Cons a cs)
  show ?case
  proof (cases "Source a = db")
    case True
    with Cons.prems show ?thesis by auto
  next
    case False
    with Cons.prems obtain rest' where r: "cutSource db cs = Some (c, rest')" "rest = a # rest'"
      by (auto split: option.splits)
    from cutSource_Some [OF r(1)] have "set cs = insert c (set rest')"
      by (metis set_mset_add_mset_insert set_mset_mset)
    with Cons.IH [OF r(1)] Cons.prems(2) False r(2) show ?thesis by auto
  qed
qed

lemma without_distinct:
  "distinct (map Source cs) \<Longrightarrow>
   distinct (map Source (without db cs)) \<and> db \<notin> Source ` set (without db cs)"
proof (cases "cutSource db cs")
  case None
  assume "distinct (map Source cs)"
  with None cutSource_None [of db cs] show ?thesis by (simp add: without_def)
next
  case (Some a)
  assume d: "distinct (map Source cs)"
  from Some obtain c rest where cut: "cutSource db cs = Some (c, rest)" by (cases a) simp
  from cutSource_distinct [OF cut d] cut show ?thesis by (simp add: without_def)
qed

text \<open>
  Every path but one keeps the active list at one credential per source: \<open>Logout\<close>,
  \<open>LogoutAll\<close>, \<open>flushLogout\<close>, a login that finds its credential active, a login that
  fails, and a login whose driver succeeds (it calls \<open>dropAuth\<close> before it appends).
  The path left out is the login that finds its credential in the pending queue.
\<close>

lemma uniqueSource_other_paths:
  assumes "uniqueSource socket" and "perform e op socket = Some socket'"
    and "\<And>cred. op = OpLogin cred \<Longrightarrow>
           defaultMechanism cred \<in> set (creds socket) \<or>
           defaultMechanism cred \<notin> set (logout socket)"
  shows "uniqueSource socket'"
proof (cases op)
  case (OpLogin cred)
  with assms(2) obtain r where l: "Login e cred socket = Some (r, socket')"
    by (auto simp add: perform_def)
  show ?thesis
  proof (cases "defaultMechanism cred \<in> set (creds socket)")
    case True
    with l assms(1) show ?thesis by (simp add: Login_def Let_def)
  next
    case False
    with assms(3) [OF OpLogin] have b: "defaultMechanism cred \<notin> set (logout socket)" by simp
    note eff = Login_driver [OF False b l]
    from assms(1) have w: "distinct (map Source (without (Source cred) (creds socket)))"
        "Source cred \<notin> Source ` set (without (Source cred) (creds socket))"
      using without_distinct [of "creds socket" "Source cred"] by (simp_all add: uniqueSource_def)
    have src: "Source (defaultMechanism cred) = Source cred" by (simp add: defaultMechanism_def)
    show ?thesis
    proof (cases r)
      case None
      with eff w src show ?thesis by (auto simp add: uniqueSource_def)
    next
      case (Some err)
      with eff assms(1) show ?thesis by (simp add: uniqueSource_def)
    qed
  qed
next
  case (OpLogout db)
  with assms(2) have s': "socket' = Logout db socket" by (simp add: perform_def)
  show ?thesis
  proof (cases "cutSource db (creds socket)")
    case None
    with s' assms(1) show ?thesis by (simp add: Logout_absent)
  next
    case (Some a)
    then obtain x rest where cut: "cutSource db (creds socket) = Some (x, rest)"
      by (cases a) simp
    from cutSource_distinct [OF cut] assms(1) show ?thesis
      by (simp add: s' Logout_found [OF cut] uniqueSource_def)
  qed
next
  case OpLogoutAll
  with assms(1,2) show ?thesis
    by (auto simp add: perform_def LogoutAll_def uniqueSource_def split: if_splits)
next
  case OpFlush
  with assms(1,2) show ?thesis
    by (auto simp add: perform_def flushLogout_def uniqueSource_def split: if_splits)
qed

text \<open>An unset mechanism and \<open>SCRAM-SHA-1\<close> are the same login.\<close>

lemma Login_default_same:
  "Login e (cred\<lparr>Mechanism := []\<rparr>) socket = Login e (cred\<lparr>Mechanism := ''SCRAM-SHA-1''\<rparr>) socket"
  by (simp add: Login_def defaultMechanism_def)

section \<open>Which outcome gives which error\<close>









section \<open>The passes of the SASL loop\<close>

lemma passExits_unfolded:
  assumes "Step e (v_sasl v) (sasl_Payload (v_res v)) = ((payload, done, err), sasl')"
    and "respond e (peer (v_socket v)) (saslOp v payload) = (out, p')"
  shows "passExits e v =
     (err \<noteq> None \<or> (done \<and> sasl_Done (v_res v)) \<or>
      (case out of
         Document doc \<Rightarrow> r_ok doc = False \<or> r_code doc \<noteq> 0 \<or> (done \<and> r_done doc)
       | _ \<Rightarrow> True))"
  using assms by (simp add: passExits_def)

lemma saslRound_exits:
  assumes "passExits e v"
  shows "\<exists>result. saslRound e v = Inl result"
  using assms
  by (auto simp add: passExits_def saslRound_def loginRun_def saslOp_def Let_def
        saslClosure_def unmarshal_saslResult_def
        split: prod.splits option.splits outcome.splits if_splits)

lemma saslRound_goes_on:
  assumes "\<not> passExits e v"
  shows "saslRound e v = Inr (nextPass e v)"
  using assms
  by (auto simp add: passExits_def nextPass_def saslRound_def loginRun_def saslOp_def sent_def
        Let_def saslClosure_def unmarshal_saslResult_def
        split: prod.splits option.splits outcome.splits if_splits)

lemma nextPass_queries:
  "length (queries (v_socket (nextPass e v))) = Suc (length (queries (v_socket v)))"
  by (simp add: nextPass_def sent_def split: prod.splits)

lemma saslRound_exit_queries:
  assumes "saslRound e v = Inl result"
  shows "length (queries (v_socket v)) \<le> length (queries (snd result)) \<and>
         length (queries (snd result)) \<le> Suc (length (queries (v_socket v)))"
  using assms
  by (auto simp add: saslRound_def Let_def commit_lists
           split: prod.splits option.splits if_splits sum.splits
           dest!: loginRun_sasl)

lemma saslLoop_first_exit:
  assumes "\<forall>k<n. \<not> passExits e ((nextPass e ^^ k) v)"
    and "passExits e ((nextPass e ^^ n) v)"
  shows "\<exists>result. saslLoop e v = Some result \<and>
           saslRound e ((nextPass e ^^ n) v) = Inl result \<and>
           length (queries (v_socket v)) + n \<le> length (queries (snd result)) \<and>
           length (queries (snd result)) \<le> length (queries (v_socket v)) + n + 1"
  using assms
proof (induction n arbitrary: v)
  case 0
  then obtain result where r: "saslRound e v = Inl result"
    using saslRound_exits [of e v] by auto
  with saslRound_exit_queries [OF r] show ?case
    by (simp add: saslLoop.simps [of e v])
next
  case (Suc n)
  from Suc.prems(1) have "\<not> passExits e ((nextPass e ^^ 0) v)" by blast
  then have go: "saslRound e v = Inr (nextPass e v)"
    using saslRound_goes_on [of e v] by simp
  have a: "\<forall>k<n. \<not> passExits e ((nextPass e ^^ k) (nextPass e v))"
  proof (intro allI impI)
    fix k assume "k < n"
    then have "Suc k < Suc n" by simp
    with Suc.prems(1) have "\<not> passExits e ((nextPass e ^^ Suc k) v)" by blast
    then show "\<not> passExits e ((nextPass e ^^ k) (nextPass e v))"
      by (simp add: funpow_swap1)
  qed
  have b: "passExits e ((nextPass e ^^ n) (nextPass e v))"
    using Suc.prems(2) by (simp add: funpow_swap1)
  from Suc.IH [OF a b] obtain result where
    r: "saslLoop e (nextPass e v) = Some result"
       "saslRound e ((nextPass e ^^ n) (nextPass e v)) = Inl result"
       "length (queries (v_socket (nextPass e v))) + n \<le> length (queries (snd result))"
       "length (queries (snd result)) \<le> length (queries (v_socket (nextPass e v))) + n + 1"
    by blast
  from go r(1) have "saslLoop e v = Some result" by (simp add: saslLoop.simps [of e v])
  moreover from r(2) have "saslRound e ((nextPass e ^^ Suc n) v) = Inl result"
    by (simp add: funpow_swap1)
  ultimately show ?case using r(3,4) nextPass_queries [of e v] by auto
qed

lemma saslLoop_some_exit:
  assumes "saslLoop e v = Some result"
  shows "\<exists>n. passExits e ((nextPass e ^^ n) v)"
proof (rule saslLoop.raw_induct
    [where P = "\<lambda>e v result. \<exists>n. passExits e ((nextPass e ^^ n) v)", OF _ assms], goal_cases)
  case (1 loop e v result)
  show ?case
  proof (cases "passExits e v")
    case True
    then have "passExits e ((nextPass e ^^ 0) v)" by simp
    then show ?thesis by blast
  next
    case False
    with 1(2) have "loop e (nextPass e v) = Some result"
      by (simp add: saslRound_goes_on)
    from 1(1) [OF this] obtain n where "passExits e ((nextPass e ^^ n) (nextPass e v))" by blast
    then have "passExits e ((nextPass e ^^ Suc n) v)" by (simp add: funpow_swap1)
    then show ?thesis by blast
  qed
qed

lemma saslLoop_None_iff:
  "(saslLoop e v = None) = (\<forall>n. \<not> passExits e ((nextPass e ^^ n) v))"
proof
  assume none: "saslLoop e v = None"
  show "\<forall>n. \<not> passExits e ((nextPass e ^^ n) v)"
  proof (rule ccontr)
    assume "\<not> (\<forall>n. \<not> passExits e ((nextPass e ^^ n) v))"
    then have ex: "\<exists>n. passExits e ((nextPass e ^^ n) v)" by blast
    define m where "m = (LEAST n. passExits e ((nextPass e ^^ n) v))"
    from ex have hit: "passExits e ((nextPass e ^^ m) v)"
      unfolding m_def by (rule LeastI_ex)
    have before: "\<forall>k<m. \<not> passExits e ((nextPass e ^^ k) v)"
      unfolding m_def using not_less_Least by blast
    from saslLoop_first_exit [OF before hit] none show False by auto
  qed
next
  assume "\<forall>n. \<not> passExits e ((nextPass e ^^ n) v)"
  then show "saslLoop e v = None"
    using saslLoop_some_exit [of e v] by (cases "saslLoop e v") auto
qed

section \<open>Runs whose sends find the pending queue drained\<close>













section \<open>Unfolding the definitions on concrete inputs\<close>

lemmas run_defs =
  perform_def Login_def Logout_def LogoutAll_def flushLogout_def defaultMechanism_def
  dropLogout_def dropAuth_def commit_def loginPlain_def loginX509_def loginRun_def
  authClosure_def unmarshal_authResult_def fixedEnv_def answer_def credOf_def newSocket_def
  Let_def

lemmas sasl_defs =
  loginSASL_def newStepper_def saslNew_def saslNewScram_def saslRound_def saslClosure_def
  unmarshal_saslResult_def zeroSaslResult_def

section \<open>Login of a credential that is already active\<close>

text \<open>
  Claim C1. If the credential, with its mechanism defaulted, is already in
  \<open>socket.creds\<close>, \<open>Login\<close> returns nil and the socket it leaves is the one it found:
  the same active set, the same pending queue, and no operation handed to
  \<open>socket.Query\<close>. Calling it again therefore changes nothing either.
\<close>

theorem Login_active_noop:
  assumes "defaultMechanism cred \<in> set (creds socket)"
  shows "Login e cred socket = Some (None, socket) \<and>
         Option.bind (Login e cred socket) (\<lambda>(r, socket'). Login e cred socket') =
           Login e cred socket"
  using assms by (simp add: Login_def)

theorem Login_active_noop_witness:
  "defaultMechanism (credOf ''u'' ''db'' []) \<in>
     set (creds ((newSocket ''h'' 0)\<lparr>creds := [credOf ''u'' ''db'' ''SCRAM-SHA-1'']\<rparr>)) \<and>
   Login (fixedEnv (QueryError ''down'')) (credOf ''u'' ''db'' [])
     ((newSocket ''h'' 0)\<lparr>creds := [credOf ''u'' ''db'' ''SCRAM-SHA-1'']\<rparr>) =
   Some (None, (newSocket ''h'' 0)\<lparr>creds := [credOf ''u'' ''db'' ''SCRAM-SHA-1'']\<rparr>)"
proof -
  have h: "defaultMechanism (credOf ''u'' ''db'' []) \<in>
     set (creds ((newSocket ''h'' (0::nat))\<lparr>creds := [credOf ''u'' ''db'' ''SCRAM-SHA-1'']\<rparr>))"
    by (simp add: defaultMechanism_def credOf_def newSocket_def)
  from Login_active_noop [OF h, of "fixedEnv (QueryError ''down'')"] h show ?thesis
    by simp
qed

section \<open>Login of a credential that is pending logout\<close>

text \<open>
  Claim C2. The claim is that a \<open>Login\<close> of a credential that sits in the pending
  queue takes it out of the queue and makes it active again with nothing sent. The
  code at \<open>Login\<close> of \<open>u\<close> on \<open>db\<close> with no mechanism set, \<open>Logout\<close> of \<open>db\<close>, and the same
  \<open>Login\<close> again, with a peer that accepts the first command: the SASL loop has
  committed the credential with its mechanism cleared, so after the \<open>Logout\<close> the queue
  holds the very credential the caller passes; the second \<open>Login\<close> defaults the
  mechanism to \<open>SCRAM-SHA-1\<close> before it compares, does not find it, and sends a second
  \<open>saslStart\<close>, leaving the credential both active and pending. With the queue flushed
  in between, the second \<open>Login\<close> sends all the same.
\<close>

theorem default_Login_not_restored:
  "run (fixedEnv (answer True 0 True)) [OpLogin (credOf ''u'' ''db'' []), OpLogout ''db'']
     (newSocket ''h'' 0) =
     Some \<lparr>creds = [], logout = [credOf ''u'' ''db'' []], serverAddr = ''h'', peer = 1,
           queries = [\<lparr>query = SaslCmd 1 0 0 ''SCRAM-SHA-1'' [], collection = ''db.$cmd'',
                       limit = - 1\<rparr>]\<rparr> \<and>
   Login (fixedEnv (answer True 0 True)) (credOf ''u'' ''db'' [])
     \<lparr>creds = [], logout = [credOf ''u'' ''db'' []], serverAddr = ''h'', peer = 1,
      queries = [\<lparr>query = SaslCmd 1 0 0 ''SCRAM-SHA-1'' [], collection = ''db.$cmd'',
                  limit = - 1\<rparr>]\<rparr> =
     Some (None,
       \<lparr>creds = [credOf ''u'' ''db'' []], logout = [credOf ''u'' ''db'' []], serverAddr = ''h'',
        peer = 2,
        queries = [\<lparr>query = SaslCmd 1 0 0 ''SCRAM-SHA-1'' [], collection = ''db.$cmd'',
                    limit = - 1\<rparr>,
                   \<lparr>query = SaslCmd 1 0 0 ''SCRAM-SHA-1'' [], collection = ''db.$cmd'',
                    limit = - 1\<rparr>]\<rparr>) \<and>
   run (fixedEnv (answer True 0 True))
     [OpLogin (credOf ''u'' ''db'' []), OpLogout ''db'', OpFlush, OpLogin (credOf ''u'' ''db'' [])]
     (newSocket ''h'' 0) =
     Some \<lparr>creds = [credOf ''u'' ''db'' []], logout = [], serverAddr = ''h'', peer = 2,
           queries = [\<lparr>query = SaslCmd 1 0 0 ''SCRAM-SHA-1'' [], collection = ''db.$cmd'',
                       limit = - 1\<rparr>,
                      \<lparr>query = SaslCmd 1 0 0 ''SCRAM-SHA-1'' [], collection = ''db.$cmd'',
                       limit = - 1\<rparr>]\<rparr>"
  by (simp add: run_defs sasl_defs saslLoop.simps logoutOps_eq)

text \<open>
  For a credential the pending queue holds with the mechanism \<open>Login\<close> compares, the
  restoring works on every socket reached from a new one.
\<close>

lemma Login_pending_on_runs:
  assumes "run e ops (newSocket addr p) = Some socket"
  shows "(defaultMechanism cred \<in> set (logout socket) \<longrightarrow>
            Login e cred socket =
              Some (None, socket\<lparr>logout := remove1 (defaultMechanism cred) (logout socket),
                                  creds := creds socket @ [defaultMechanism cred]\<rparr>)) \<and>
         (logout socket = [] \<and>
          cutSource ns (creds socket) = Some (defaultMechanism cred, rest) \<longrightarrow>
            Login e cred (Logout ns socket) =
              Some (None, socket\<lparr>creds := rest @ [defaultMechanism cred]\<rparr>))"
proof (intro conjI impI)
  have h: "heldOnce socket"
    by (rule heldOnce_run [OF heldOnce_newSocket assms])
  {
    assume q: "defaultMechanism cred \<in> set (logout socket)"
    from heldOnce_pending_not_active [OF h q] q
    show "Login e cred socket =
              Some (None, socket\<lparr>logout := remove1 (defaultMechanism cred) (logout socket),
                                  creds := creds socket @ [defaultMechanism cred]\<rparr>)"
      by (rule Login_pending)
  }
  {
    assume a: "logout socket = [] \<and>
          cutSource ns (creds socket) = Some (defaultMechanism cred, rest)"
    then have lo: "Logout ns socket =
        socket\<lparr>creds := rest, logout := [defaultMechanism cred]\<rparr>"
      by (simp add: Logout_found)
    from h have "heldOnce (Logout ns socket)" by (rule heldOnce_Logout)
    then have "defaultMechanism cred \<notin> set (creds (Logout ns socket))"
      by (rule heldOnce_pending_not_active) (simp add: lo)
    then have "Login e cred (Logout ns socket) =
        Some (None, (Logout ns socket)\<lparr>logout := remove1 (defaultMechanism cred) (logout (Logout ns socket)),
                               creds := creds (Logout ns socket) @ [defaultMechanism cred]\<rparr>)"
      by (rule Login_pending) (simp add: lo)
    with a show "Login e cred (Logout ns socket) =
              Some (None, socket\<lparr>creds := rest @ [defaultMechanism cred]\<rparr>)"
      by (simp add: lo)
  }
qed

section \<open>Flushing the pending logouts\<close>

text \<open>
  Claim C3. With \<open>k\<close> credentials in \<open>socket.logout\<close>, \<open>flushLogout\<close> returns \<open>k\<close>
  operations, the \<open>i\<close>-th a \<open>logoutCmd{1}\<close> on the \<open>$cmd\<close> collection of the \<open>i\<close>-th queued
  credential's source, and leaves the queue empty, so that a second \<open>flushLogout\<close>
  returns none. In particular, from an empty queue, \<open>Logout\<close> on distinct active
  namespaces followed by \<open>flushLogout\<close> gives one operation per namespace, in call
  order.
\<close>

theorem flushLogout_drains:
  assumes "length (logout socket) = k"
  shows "length (fst (flushLogout socket)) = k \<and>
         (\<forall>i < k. fst (flushLogout socket) ! i =
                    \<lparr>query = LogoutCmd 1,
                     collection = Source (logout socket ! i) @ ''.$cmd'', limit = - 1\<rparr>) \<and>
         snd (flushLogout socket) = socket\<lparr>logout := []\<rparr> \<and>
         fst (flushLogout (snd (flushLogout socket))) = [] \<and>
         (\<forall>dbs. logout socket = [] \<and> distinct dbs \<and> set dbs \<subseteq> Source ` set (creds socket) \<longrightarrow>
            map collection (fst (flushLogout (fold Logout dbs socket))) =
              map (\<lambda>db. db @ ''.$cmd'') dbs)"
proof -
  have ops: "fst (flushLogout s) = map logoutOp (logout s)" for s :: "'a mongoSocket"
    by (simp add: flushLogout_def logoutOps_eq)
  have coll: "map collection (map logoutOp cs) = map (\<lambda>db. db @ ''.$cmd'') (map Source cs)" for cs
    by (simp add: logoutOp_def)
  have many: "map collection (fst (flushLogout (fold Logout dbs socket))) =
              map (\<lambda>db. db @ ''.$cmd'') dbs"
    if "logout socket = [] \<and> distinct dbs \<and> set dbs \<subseteq> Source ` set (creds socket)" for dbs
  proof -
    from that have "map Source (logout (fold Logout dbs socket)) = dbs"
      using Logouts_queue [of dbs socket] by simp
    then show ?thesis unfolding ops coll by simp
  qed
  have one: "\<forall>i < k. fst (flushLogout socket) ! i =
                    \<lparr>query = LogoutCmd 1,
                     collection = Source (logout socket ! i) @ ''.$cmd'', limit = - 1\<rparr>"
    using assms by (simp add: ops logoutOp_def)
  have rest: "length (fst (flushLogout socket)) = k \<and>
         snd (flushLogout socket) = socket\<lparr>logout := []\<rparr> \<and>
         fst (flushLogout (snd (flushLogout socket))) = []"
    using assms by (auto simp add: flushLogout_def logoutOps_eq)
  from one rest many show ?thesis by blast
qed

theorem flushLogout_drains_witness:
  "length (logout ((newSocket ''h'' (0::nat))
      \<lparr>logout := [credOf ''u'' ''a'' ''PLAIN'', credOf ''v'' ''b'' ''PLAIN'']\<rparr>)) = 2 \<and>
   length (fst (flushLogout ((newSocket ''h'' (0::nat))
      \<lparr>logout := [credOf ''u'' ''a'' ''PLAIN'', credOf ''v'' ''b'' ''PLAIN'']\<rparr>))) = 2 \<and>
   fst (flushLogout ((newSocket ''h'' (0::nat))
      \<lparr>logout := [credOf ''u'' ''a'' ''PLAIN'', credOf ''v'' ''b'' ''PLAIN'']\<rparr>)) ! 1 =
     \<lparr>query = LogoutCmd 1, collection = ''b.$cmd'', limit = - 1\<rparr> \<and>
   fst (flushLogout (snd (flushLogout ((newSocket ''h'' (0::nat))
      \<lparr>logout := [credOf ''u'' ''a'' ''PLAIN'', credOf ''v'' ''b'' ''PLAIN'']\<rparr>)))) = []"
proof -
  have h: "length (logout ((newSocket ''h'' (0::nat))
      \<lparr>logout := [credOf ''u'' ''a'' ''PLAIN'', credOf ''v'' ''b'' ''PLAIN'']\<rparr>)) = 2"
    by simp
  have c: "Source (credOf ''v'' ''b'' ''PLAIN'') = ''b''"
    by (simp add: credOf_def)
  from flushLogout_drains [OF h] have
    "length (fst (flushLogout ((newSocket ''h'' (0::nat))
      \<lparr>logout := [credOf ''u'' ''a'' ''PLAIN'', credOf ''v'' ''b'' ''PLAIN'']\<rparr>))) = 2"
    and "(1::nat) < 2 \<longrightarrow> fst (flushLogout ((newSocket ''h'' (0::nat))
      \<lparr>logout := [credOf ''u'' ''a'' ''PLAIN'', credOf ''v'' ''b'' ''PLAIN'']\<rparr>)) ! 1 =
     \<lparr>query = LogoutCmd 1, collection = Source (logout ((newSocket ''h'' (0::nat))
      \<lparr>logout := [credOf ''u'' ''a'' ''PLAIN'', credOf ''v'' ''b'' ''PLAIN'']\<rparr>) ! 1) @ ''.$cmd'', limit = - 1\<rparr>"
    and "fst (flushLogout (snd (flushLogout ((newSocket ''h'' (0::nat))
      \<lparr>logout := [credOf ''u'' ''a'' ''PLAIN'', credOf ''v'' ''b'' ''PLAIN'']\<rparr>)))) = []"
    by blast+
  with h c show ?thesis by simp
qed

section \<open>Legacy mechanisms\<close>

text \<open>
  Claim C4. A credential whose mechanism is \<open>MONGODB-CR\<close> or \<open>MONGO-CR\<close>, neither active
  nor pending, makes \<open>Login\<close> return the "no longer supported" error naming that
  mechanism; the socket is the one it found, so nothing was handed to \<open>socket.Query\<close>
  and neither list changed. \<open>loginClassic\<close>, which \<open>Login\<close> no longer calls, returns
  its fixed error the same way.
\<close>

theorem Login_legacy_rejected:
  assumes "Mechanism cred = ''MONGODB-CR'' \<or> Mechanism cred = ''MONGO-CR''"
    and "cred \<notin> set (creds socket)" and "cred \<notin> set (logout socket)"
  shows "Login e cred socket = Some (Some (Unsupported (Mechanism cred)), socket) \<and>
         loginClassic cred socket = (Some (Unsupported ''MONGODB-CR''), socket)"
  using assms
  by (auto simp add: Login_def defaultMechanism_def dropLogout_def cutEqual_eq loginClassic_def)

theorem Login_legacy_rejected_witness:
  "(Mechanism (credOf ''u'' ''db'' ''MONGO-CR'') = ''MONGODB-CR'' \<or>
    Mechanism (credOf ''u'' ''db'' ''MONGO-CR'') = ''MONGO-CR'') \<and>
   credOf ''u'' ''db'' ''MONGO-CR'' \<notin> set (creds (newSocket ''h'' (0::nat))) \<and>
   credOf ''u'' ''db'' ''MONGO-CR'' \<notin> set (logout (newSocket ''h'' (0::nat))) \<and>
   Login (fixedEnv (answer True 0 True)) (credOf ''u'' ''db'' ''MONGO-CR'') (newSocket ''h'' 0) =
     Some (Some (Unsupported ''MONGO-CR''), newSocket ''h'' 0)"
proof -
  have m: "Mechanism (credOf ''u'' ''db'' ''MONGO-CR'') = ''MONGODB-CR'' \<or>
           Mechanism (credOf ''u'' ''db'' ''MONGO-CR'') = ''MONGO-CR''"
    by (simp add: credOf_def)
  have a: "credOf ''u'' ''db'' ''MONGO-CR'' \<notin> set (creds (newSocket ''h'' (0::nat)))"
    by (simp add: newSocket_def)
  have p: "credOf ''u'' ''db'' ''MONGO-CR'' \<notin> set (logout (newSocket ''h'' (0::nat)))"
    by (simp add: newSocket_def)
  from Login_legacy_rejected [OF m a p, of "fixedEnv (answer True 0 True)"] m a p
  show ?thesis by (simp add: credOf_def)
qed

section \<open>A reply with ok and an error code\<close>

text \<open>
  Claim C5. In a pass of the SASL loop whose \<open>Step\<close> gave no error and which did not
  commit before sending, let the peer answer with a document. If the document has
  \<open>ok\<close> true and a nonzero \<open>code\<close>, the login returns the "server returned error on
  SASL authentication step" error with the document's message, and the two lists are
  as before. The pass ends without an error exactly when \<open>ok\<close> is true and \<open>code\<close> is
  zero.
\<close>

theorem sasl_ok_with_code_fails:
  assumes "Step e (v_sasl v) (sasl_Payload (v_res v)) = ((payload, done, None), sasl')"
    and "\<not> (done \<and> sasl_Done (v_res v))"
    and "respond e (peer (v_socket v))
           \<lparr>query = SaslCmd (v_start v) (1 - v_start v) (sasl_ConversationId (v_res v))
                      (Mechanism (v_cred v)) payload,
            collection = Source (v_cred v) @ ''.$cmd'', limit = - 1\<rparr> = (Document doc, p')"
  shows "(r_ok doc \<and> r_code doc \<noteq> 0 \<longrightarrow>
            saslLoop e v =
              Some (Some (SaslFailed (r_errmsg doc)),
                    (v_socket v)\<lparr>peer := p', queries := queries (v_socket v) @
                      [\<lparr>query = SaslCmd (v_start v) (1 - v_start v)
                                  (sasl_ConversationId (v_res v)) (Mechanism (v_cred v)) payload,
                        collection = Source (v_cred v) @ ''.$cmd'', limit = - 1\<rparr>]\<rparr>)) \<and>
         ((\<forall>err socket'. saslRound e v \<noteq> Inl (Some err, socket')) = (r_ok doc \<and> r_code doc = 0))"
proof -
  let ?op = "\<lparr>query = SaslCmd (v_start v) (1 - v_start v) (sasl_ConversationId (v_res v))
                      (Mechanism (v_cred v)) payload,
            collection = Source (v_cred v) @ ''.$cmd'', limit = - 1\<rparr>"
  let ?s = "(v_socket v)\<lparr>peer := p', queries := queries (v_socket v) @ [?op]\<rparr>"
  have run: "loginRun e (Source (v_cred v)) (query ?op) unmarshal_saslResult saslClosure (v_socket v) =
               (if r_ok doc \<and> r_code doc = 0 then (Inr (unmarshal_saslResult doc), ?s)
                else (Inl (SaslFailed (r_errmsg doc)), ?s))"
    using assms(3)
    by (simp add: loginRun_def Let_def saslClosure_def unmarshal_saslResult_def)
  have bad: "saslRound e v = Inl (Some (SaslFailed (r_errmsg doc)), ?s)"
    if "\<not> (r_ok doc \<and> r_code doc = 0)"
    using assms(1,2) run that by (simp add: saslRound_def Let_def)
  have good: "saslRound e v \<noteq> Inl (Some err, socket')" if "r_ok doc \<and> r_code doc = 0"
    for err socket'
    using assms(1,2) run that by (simp add: saslRound_def Let_def)
  have "saslLoop e v = Some (Some (SaslFailed (r_errmsg doc)), ?s)"
    if "r_ok doc \<and> r_code doc \<noteq> 0"
    using bad that by (simp add: saslLoop.simps [of e v])
  moreover have "(\<forall>err socket'. saslRound e v \<noteq> Inl (Some err, socket')) =
                 (r_ok doc \<and> r_code doc = 0)"
    using bad good by blast
  ultimately show ?thesis by blast
qed

theorem sasl_ok_with_code_fails_witness:
  "saslLoop (fixedEnv (answer True 13 False))
     \<lparr>v_sasl = SaslScram (credOf ''u'' ''db'' ''SCRAM-SHA-1'') 0,
      v_cred = credOf ''u'' ''db'' ''SCRAM-SHA-1'', v_start = 1, v_res = zeroSaslResult,
      v_socket = newSocket ''h'' 0\<rparr> =
   Some (Some (SaslFailed ''Authentication failed.''),
     \<lparr>creds = [], logout = [], serverAddr = ''h'', peer = 1,
      queries = [\<lparr>query = SaslCmd 1 0 0 ''SCRAM-SHA-1'' [], collection = ''db.$cmd'',
                  limit = - 1\<rparr>]\<rparr>)"
proof -
  let ?e = "fixedEnv (answer True 13 False)"
  let ?v = "\<lparr>v_sasl = SaslScram (credOf ''u'' ''db'' ''SCRAM-SHA-1'') (0::nat),
      v_cred = credOf ''u'' ''db'' ''SCRAM-SHA-1'', v_start = 1, v_res = zeroSaslResult,
      v_socket = newSocket ''h'' (0::nat)\<rparr> :: (nat, unit, nat) saslVars"
  let ?doc = "\<lparr>r_ok = True, r_code = 13, r_done = False, r_conversationId = 1,
               r_payload = [], r_errmsg = ''Authentication failed.''\<rparr>"
  have st: "Step ?e (v_sasl ?v) (sasl_Payload (v_res ?v)) =
              (([], True, None), SaslScram (credOf ''u'' ''db'' ''SCRAM-SHA-1'') 1)"
    by (simp add: fixedEnv_def)
  have nd: "\<not> (True \<and> sasl_Done (v_res ?v))"
    by (simp add: zeroSaslResult_def)
  have rp: "respond ?e (peer (v_socket ?v))
           \<lparr>query = SaslCmd (v_start ?v) (1 - v_start ?v) (sasl_ConversationId (v_res ?v))
                      (Mechanism (v_cred ?v)) [],
            collection = Source (v_cred ?v) @ ''.$cmd'', limit = - 1\<rparr> = (Document ?doc, 1)"
    by (simp add: fixedEnv_def answer_def newSocket_def)
  from sasl_ok_with_code_fails [OF st nd rp] show ?thesis
    by (simp add: zeroSaslResult_def credOf_def newSocket_def)
qed

section \<open>A failed login commits nothing\<close>



section \<open>One active credential per source\<close>



text \<open>
  The condition on the runs is needed. The \<open>Login\<close> that finds its credential in the
  pending queue appends it without \<open>dropAuth\<close>; were another credential of that source
  logged in while the queue still held the first, both would end up active.
\<close>

lemma cached_Login_doubles_source:
  "map_option creds
     (run (fixedEnv (answer True 0 True))
        [OpLogin (credOf ''u'' ''db'' ''PLAIN''), OpLogout ''db'',
         OpLogin (credOf ''w'' ''db'' ''PLAIN''), OpLogin (credOf ''u'' ''db'' ''PLAIN'')]
        (newSocket ''h'' 0)) =
     Some [credOf ''w'' ''db'' ''PLAIN'', credOf ''u'' ''db'' ''PLAIN''] \<and>
   Source (credOf ''w'' ''db'' ''PLAIN'') = Source (credOf ''u'' ''db'' ''PLAIN'') \<and>
   credOf ''w'' ''db'' ''PLAIN'' \<noteq> credOf ''u'' ''db'' ''PLAIN''"
  by (simp add: run_defs)

section \<open>How a credential leaves the active list\<close>

text \<open>
  Claim C8, as stated, fails: a \<open>Login\<close> whose driver succeeds calls \<open>dropAuth\<close> and so
  removes the active credential of the same source, which is not queued for logout.
  After \<open>Login\<close> of \<open>u\<close> on \<open>db\<close> the active list is \<open>u\<close>; after a further \<open>Login\<close> of \<open>w\<close>
  on \<open>db\<close> it is \<open>w\<close>, and the pending queue is empty.
\<close>

theorem Login_replaces_without_logout:
  "map_option creds
     (run (fixedEnv (answer True 0 True)) [OpLogin (credOf ''u'' ''db'' ''PLAIN'')]
        (newSocket ''h'' 0)) = Some [credOf ''u'' ''db'' ''PLAIN''] \<and>
   map_option creds
     (run (fixedEnv (answer True 0 True))
        [OpLogin (credOf ''u'' ''db'' ''PLAIN''), OpLogin (credOf ''w'' ''db'' ''PLAIN'')]
        (newSocket ''h'' 0)) = Some [credOf ''w'' ''db'' ''PLAIN''] \<and>
   map_option logout
     (run (fixedEnv (answer True 0 True))
        [OpLogin (credOf ''u'' ''db'' ''PLAIN''), OpLogin (credOf ''w'' ''db'' ''PLAIN'')]
        (newSocket ''h'' 0)) = Some []"
  by (simp add: run_defs)

text \<open>
  Claim C8, amended. When an operation makes \<open>socket.creds\<close> lose an occurrence of a
  credential, the operation is \<open>Logout\<close> of that credential's source or \<open>LogoutAll\<close>, and
  the credential is then in the pending queue; or it is a \<open>Login\<close>, of a credential of
  the same source that was neither active nor pending, that went through a driver
  and returned nil. \<open>flushLogout\<close>, a failed login, and a login that finds its
  credential active or pending remove nothing.
\<close>

theorem active_credential_leaves_by_logout_or_replacement:
  assumes "perform e op socket = Some socket'"
    and "count (mset (creds socket')) c < count (mset (creds socket)) c"
  shows "(op = OpLogout (Source c) \<and> c \<in> set (logout socket')) \<or>
         (op = OpLogoutAll \<and> c \<in> set (logout socket')) \<or>
         (\<exists>cred. op = OpLogin cred \<and> Source cred = Source c \<and>
                 defaultMechanism cred \<notin> set (creds socket) \<and>
                 defaultMechanism cred \<notin> set (logout socket) \<and>
                 Login e cred socket = Some (None, socket'))"
proof (cases op)
  case (OpLogin cred)
  with assms(1) obtain r where l: "Login e cred socket = Some (r, socket')"
    by (auto simp add: perform_def)
  let ?d = "defaultMechanism cred"
  have a: "?d \<notin> set (creds socket)"
  proof
    assume "?d \<in> set (creds socket)"
    with l have "socket' = socket" by (simp add: Login_def Let_def)
    with assms(2) show False by simp
  qed
  have b: "?d \<notin> set (logout socket)"
  proof
    assume "?d \<in> set (logout socket)"
    with l a have "creds socket' = creds socket @ [?d]" by (auto simp add: Login_pending)
    with assms(2) show False by (simp split: if_splits)
  qed
  note eff = Login_driver [OF a b l]
  have r: "r = None"
  proof (cases r)
    case (Some err)
    with eff assms(2) show ?thesis by simp
  qed simp
  with eff obtain d' where "creds socket' = without (Source cred) (creds socket) @ [d']"
    by auto
  with assms(2) have "count (mset (without (Source cred) (creds socket))) c <
                      count (mset (creds socket)) c"
    by (simp split: if_splits)
  from lost_from_without [OF this] have "Source c = Source cred"
    using cutSource_Some by blast
  with a b l r OpLogin show ?thesis by simp
next
  case (OpLogout db)
  with assms(1) have s': "socket' = Logout db socket" by (simp add: perform_def)
  show ?thesis
  proof (cases "cutSource db (creds socket)")
    case None
    with s' assms(2) show ?thesis by (simp add: Logout_absent)
  next
    case (Some a)
    then obtain x rest where cut: "cutSource db (creds socket) = Some (x, rest)"
      by (cases a) simp
    from cutSource_Some [OF cut] assms(2) have "x = c" "Source x = db"
      by (auto simp add: s' Logout_found [OF cut] split: if_splits)
    with OpLogout show ?thesis by (simp add: s' Logout_found [OF cut])
  qed
next
  case OpLogoutAll
  from assms(2) have "c \<in> set (creds socket)"
    using count_absent [of c "creds socket"] by (cases "c \<in> set (creds socket)") auto
  with assms(1) OpLogoutAll show ?thesis
    by (auto simp add: perform_def LogoutAll_def split: if_splits)
next
  case OpFlush
  with assms show ?thesis by (auto simp add: perform_def flushLogout_def split: if_splits)
qed

theorem active_credential_leaves_by_logout_or_replacement_witness:
  "perform (fixedEnv (answer True 0 True)) (OpLogout ''db'')
     ((newSocket ''h'' 0)\<lparr>creds := [credOf ''u'' ''db'' ''PLAIN'']\<rparr>) =
     Some ((newSocket ''h'' 0)\<lparr>logout := [credOf ''u'' ''db'' ''PLAIN'']\<rparr>) \<and>
   credOf ''u'' ''db'' ''PLAIN'' \<in>
     set (logout ((newSocket ''h'' (0::nat))\<lparr>logout := [credOf ''u'' ''db'' ''PLAIN'']\<rparr>))"
proof -
  have p: "perform (fixedEnv (answer True 0 True)) (OpLogout ''db'')
     ((newSocket ''h'' 0)\<lparr>creds := [credOf ''u'' ''db'' ''PLAIN'']\<rparr>) =
     Some ((newSocket ''h'' 0)\<lparr>logout := [credOf ''u'' ''db'' ''PLAIN'']\<rparr>)"
    by (simp add: run_defs)
  have c: "count (mset (creds ((newSocket ''h'' (0::nat))\<lparr>logout := [credOf ''u'' ''db'' ''PLAIN'']\<rparr>)))
             (credOf ''u'' ''db'' ''PLAIN'') <
           count (mset (creds ((newSocket ''h'' (0::nat))\<lparr>creds := [credOf ''u'' ''db'' ''PLAIN'']\<rparr>)))
             (credOf ''u'' ''db'' ''PLAIN'')"
    by (simp add: newSocket_def)
  from active_credential_leaves_by_logout_or_replacement [OF p c] p show ?thesis
    by auto
qed

section \<open>Termination of the SASL loop\<close>

text \<open>
  Claim C9, as stated, fails: the loop has no bound on its rounds. With a SCRAM client
  that reports no error and no more data at every \<open>Step\<close>, and a peer that answers
  every command with \<open>ok\<close> true, \<open>code\<close> zero and \<open>done\<close> false, no pass returns and
  \<open>loginSASL\<close> runs forever.
\<close>

theorem loginSASL_stalls:
  "loginSASL (fixedEnv (answer True 0 False)) (credOf ''u'' ''db'' ''SCRAM-SHA-1'')
     (newSocket ''h'' 0) = None"
proof (cases "loginSASL (fixedEnv (answer True 0 False)) (credOf ''u'' ''db'' ''SCRAM-SHA-1'')
     (newSocket ''h'' 0)")
  case None
  then show ?thesis .
next
  case (Some result)
  then have "saslLoop (fixedEnv (answer True 0 False))
      \<lparr>v_sasl = saslNewScram (fixedEnv (answer True 0 False)) (credOf ''u'' ''db'' ''SCRAM-SHA-1''),
       v_cred = credOf ''u'' ''db'' ''SCRAM-SHA-1'', v_start = 1, v_res = zeroSaslResult,
       v_socket = newSocket ''h'' 0\<rparr> = Some result"
    by (simp add: loginSASL_def newStepper_def credOf_def)
  from stall_loop [OF this] have False
    by (simp add: saslNewScram_def zeroSaslResult_def)
  then show ?thesis ..
qed

text \<open>
  Claim C9, amended. A pass of the loop returns exactly when the stepper gives an
  error, or the stepper reports done and the last reply had \<open>done\<close> set, or the round
  trip fails, or the reply has \<open>ok\<close> false or a nonzero \<open>code\<close>, or the stepper reports
  done and the reply has \<open>done\<close> set; otherwise the loop goes on with the next pass.
  So if the first pass at which one of these holds is pass \<open>n\<close> (counted from 0), the
  loop returns what that pass returns, after \<open>n\<close> or \<open>n + 1\<close> round trips; and the
  loop never returns exactly when none of them ever holds.
\<close>

theorem saslLoop_exit_conditions:
  "(Step e (v_sasl v) (sasl_Payload (v_res v)) = ((payload, done, err), sasl') \<and>
    respond e (peer (v_socket v)) (saslOp v payload) = (out, p') \<longrightarrow>
      passExits e v =
        (err \<noteq> None \<or> (done \<and> sasl_Done (v_res v)) \<or>
         (case out of
            Document doc \<Rightarrow> r_ok doc = False \<or> r_code doc \<noteq> 0 \<or> (done \<and> r_done doc)
          | _ \<Rightarrow> True))) \<and>
   (passExits e v \<longrightarrow> (\<exists>result. saslRound e v = Inl result \<and> saslLoop e v = Some result)) \<and>
   (\<not> passExits e v \<longrightarrow>
      saslRound e v = Inr (nextPass e v) \<and> saslLoop e v = saslLoop e (nextPass e v)) \<and>
   ((\<forall>k<n. \<not> passExits e ((nextPass e ^^ k) v)) \<and> passExits e ((nextPass e ^^ n) v) \<longrightarrow>
      (\<exists>result. saslLoop e v = Some result \<and>
         saslRound e ((nextPass e ^^ n) v) = Inl result \<and>
         length (queries (v_socket v)) + n \<le> length (queries (snd result)) \<and>
         length (queries (snd result)) \<le> length (queries (v_socket v)) + n + 1)) \<and>
   ((saslLoop e v = None) = (\<forall>n. \<not> passExits e ((nextPass e ^^ n) v)))"
proof -
  have a: "passExits e v \<longrightarrow> (\<exists>result. saslRound e v = Inl result \<and> saslLoop e v = Some result)"
    using saslRound_exits [of e v] by (auto simp add: saslLoop.simps [of e v])
  have b: "\<not> passExits e v \<longrightarrow>
      saslRound e v = Inr (nextPass e v) \<and> saslLoop e v = saslLoop e (nextPass e v)"
    using saslRound_goes_on [of e v] by (auto simp add: saslLoop.simps [of e v])
  show ?thesis
    using passExits_unfolded [of e v payload "done" err sasl' out p'] a b
      saslLoop_first_exit [of n e v] saslLoop_None_iff [of e v]
    by blast
qed

theorem saslLoop_exit_conditions_witness:
  "\<not> passExits ((fixedEnv (answer True 0 False))\<lparr>respond := \<lambda>n op. (answer True 0 (0 < n), Suc n)\<rparr>)
       \<lparr>v_sasl = SaslScram (credOf ''u'' ''db'' ''SCRAM-SHA-1'') 0,
        v_cred = credOf ''u'' ''db'' ''SCRAM-SHA-1'', v_start = 1, v_res = zeroSaslResult,
        v_socket = newSocket ''h'' 0\<rparr> \<and>
   saslLoop ((fixedEnv (answer True 0 False))\<lparr>respond := \<lambda>n op. (answer True 0 (0 < n), Suc n)\<rparr>)
       \<lparr>v_sasl = SaslScram (credOf ''u'' ''db'' ''SCRAM-SHA-1'') 0,
        v_cred = credOf ''u'' ''db'' ''SCRAM-SHA-1'', v_start = 1, v_res = zeroSaslResult,
        v_socket = newSocket ''h'' 0\<rparr> =
     Some (None,
       \<lparr>creds = [credOf ''u'' ''db'' []], logout = [], serverAddr = ''h'', peer = 2,
        queries = [\<lparr>query = SaslCmd 1 0 0 ''SCRAM-SHA-1'' [], collection = ''db.$cmd'',
                    limit = - 1\<rparr>,
                   \<lparr>query = SaslCmd 0 1 1 [] [], collection = ''db.$cmd'', limit = - 1\<rparr>]\<rparr>)"
proof -
  let ?e = "(fixedEnv (answer True 0 False))\<lparr>respond := \<lambda>n op. (answer True 0 (0 < n), Suc n)\<rparr>"
  let ?v = "\<lparr>v_sasl = SaslScram (credOf ''u'' ''db'' ''SCRAM-SHA-1'') (0::nat),
        v_cred = credOf ''u'' ''db'' ''SCRAM-SHA-1'', v_start = 1, v_res = zeroSaslResult,
        v_socket = newSocket ''h'' (0::nat)\<rparr> :: (nat, unit, nat) saslVars"
  have n0: "\<not> passExits ?e ?v"
    by (simp add: passExits_def fixedEnv_def answer_def zeroSaslResult_def newSocket_def)
  have nx: "nextPass ?e ?v =
      \<lparr>v_sasl = SaslScram (credOf ''u'' ''db'' ''SCRAM-SHA-1'') 1,
       v_cred = credOf ''u'' ''db'' [], v_start = 0,
       v_res = \<lparr>sasl_Ok = True, sasl_NotOk = False, sasl_Done = False, sasl_ConversationId = 1,
                sasl_Payload = [], sasl_ErrMsg = ''Authentication failed.''\<rparr>,
       v_socket = \<lparr>creds = [], logout = [], serverAddr = ''h'', peer = 1,
                   queries = [\<lparr>query = SaslCmd 1 0 0 ''SCRAM-SHA-1'' [],
                               collection = ''db.$cmd'', limit = - 1\<rparr>]\<rparr>\<rparr>"
    by (simp add: nextPass_def fixedEnv_def answer_def zeroSaslResult_def newSocket_def
          saslOp_def sent_def credOf_def unmarshal_saslResult_def)
  have f1: "(nextPass ?e ^^ 1) ?v = nextPass ?e ?v" by simp
  have n1: "passExits ?e ((nextPass ?e ^^ 1) ?v)"
    unfolding f1 nx
    by (simp add: passExits_def fixedEnv_def answer_def saslOp_def)
  have before: "\<forall>k<1. \<not> passExits ?e ((nextPass ?e ^^ k) ?v)"
    using n0 by simp
  have rd: "saslRound ?e ((nextPass ?e ^^ 1) ?v) =
     Inl (None,
       \<lparr>creds = [credOf ''u'' ''db'' []], logout = [], serverAddr = ''h'', peer = 2,
        queries = [\<lparr>query = SaslCmd 1 0 0 ''SCRAM-SHA-1'' [], collection = ''db.$cmd'',
                    limit = - 1\<rparr>,
                   \<lparr>query = SaslCmd 0 1 1 [] [], collection = ''db.$cmd'', limit = - 1\<rparr>]\<rparr>)"
    unfolding f1 nx
    by (simp add: saslRound_def fixedEnv_def answer_def loginRun_def Let_def saslClosure_def
          unmarshal_saslResult_def commit_def dropAuth_def credOf_def)
  from saslLoop_exit_conditions [where e = ?e and v = ?v and n = 1] before n1
  obtain result where "saslLoop ?e ?v = Some result"
    "saslRound ?e ((nextPass ?e ^^ 1) ?v) = Inl result"
    by blast
  with rd n0 show ?thesis by simp
qed

section \<open>The mechanism of the committed credential\<close>

text \<open>
  Claim C10. The claim is that a login with an unset mechanism leaves the credential
  in the active list with the mechanism \<open>SCRAM-SHA-1\<close>, so that a second login of it
  is deduplicated. The code on a new socket, with a peer that accepts the first
  command: the SASL loop clears \<open>cred.Mechanism\<close> after building its first command and
  commits that copy, so the active list holds the credential with an empty
  mechanism; a second \<open>Login\<close> of the same credential compares the defaulted
  credential with it, finds no match and sends a second \<open>saslStart\<close>.
\<close>

theorem default_Login_commits_cleared_mechanism:
  "map_option creds
     (run (fixedEnv (answer True 0 True)) [OpLogin (credOf ''u'' ''db'' [])]
        (newSocket ''h'' 0)) = Some [credOf ''u'' ''db'' []] \<and>
   map_option queries
     (run (fixedEnv (answer True 0 True))
        [OpLogin (credOf ''u'' ''db'' []), OpLogin (credOf ''u'' ''db'' [])]
        (newSocket ''h'' 0)) =
     Some [\<lparr>query = SaslCmd 1 0 0 ''SCRAM-SHA-1'' [], collection = ''db.$cmd'', limit = - 1\<rparr>,
           \<lparr>query = SaslCmd 1 0 0 ''SCRAM-SHA-1'' [], collection = ''db.$cmd'', limit = - 1\<rparr>]"
  by (simp add: run_defs sasl_defs saslLoop.simps)

end
